theory Spec2Isabelle
  imports Complex_Main "HOL-Library.Word"
begin

section \<open>The dog-detection proxy: data model\<close>

text \<open>
  The development follows \<^verbatim>\<open>dog-detection.controller.ts\<close>,
  \<^verbatim>\<open>dog-detection.service.ts\<close> and \<^verbatim>\<open>dog-detection.types.ts\<close>.
  JavaScript strings are modelled as \<^typ>\<open>string\<close> (characters of one byte), a
  \<^verbatim>\<open>Buffer\<close> as a list of bytes, JavaScript numbers that carry measurements as
  \<^typ>\<open>real\<close>, counters as \<^typ>\<open>nat\<close> or \<^typ>\<open>int\<close>. An optional property is an
  \<^typ>\<open>'a option\<close>.

  The request body and the vendor's reply are JSON that nothing checks at run time, so
  a value the code reads a property of, or calls a method on, may be \<^verbatim>\<open>null\<close> or of
  another type than the TypeScript declarations say: those reads and calls can throw,
  and the model has a branch for each of them. Values the code only copies or compares
  (confidence, coordinates, image data) have their declared types.

  Every \<^verbatim>\<open>async\<close> function runs to its end before its caller goes on, so a call is a
  function from the state before to a result and the state after. The state records the
  service object and, in order, every effect on the outside: requests, timers, file
  operations, console output. A thrown error is the left summand of the result.
\<close>

type_synonym byte = "8 word"

subsection \<open>JavaScript helpers\<close>

text \<open>Truthiness of an optional string: \<^verbatim>\<open>undefined\<close> and \<^verbatim>\<open>''\<close> are falsy.\<close>

definition truthy :: "string option \<Rightarrow> bool" where
  "truthy v = (case v of None \<Rightarrow> False | Some s \<Rightarrow> s \<noteq> [])"

text \<open>
  A JSON value as far as the code can tell values apart: \<^verbatim>\<open>undefined\<close> is an absent
  property, \<open>JObject\<close> is any array or object. A JSON value holds no function, so
  a method call on anything but a string throws a TypeError.
\<close>

datatype js_value = JUndefined | JNull | JBool bool | JNum real | JStr string | JObject

fun truthy_value :: "js_value \<Rightarrow> bool" where
  "truthy_value JUndefined = False"
| "truthy_value JNull = False"
| "truthy_value (JBool b) = b"
| "truthy_value (JNum n) = (n \<noteq> 0)"
| "truthy_value (JStr s) = (s \<noteq> [])"
| "truthy_value JObject = True"

text \<open>\<^verbatim>\<open>a || b\<close> on a number: zero is falsy.\<close>

definition num_or :: "real \<Rightarrow> real \<Rightarrow> real" where
  "num_or a b = (if a = 0 then b else a)"

text \<open>\<^verbatim>\<open>a || b\<close> on an optional string with a string default.\<close>

definition str_or :: "string option \<Rightarrow> string \<Rightarrow> string" where
  "str_or v d = (case v of None \<Rightarrow> d | Some s \<Rightarrow> if s = [] then d else s)"

fun index_of :: "'a \<Rightarrow> 'a list \<Rightarrow> nat option" where
  "index_of c [] = None"
| "index_of c (d # ds) =
     (if c = d then Some 0
      else (case index_of c ds of None \<Rightarrow> None | Some i \<Rightarrow> Some (Suc i)))"

definition upper_chars :: string where
  "upper_chars = ''ABCDEFGHIJKLMNOPQRSTUVWXYZ''"

definition lower_chars :: string where
  "lower_chars = ''abcdefghijklmnopqrstuvwxyz''"

text \<open>
  \<^verbatim>\<open>String.prototype.toLowerCase\<close> on the letters A to Z; no other character
  lower-cases to a letter of \<^verbatim>\<open>'dog'\<close>.
\<close>

definition lower_char :: "char \<Rightarrow> char" where
  "lower_char c = (case index_of c upper_chars of None \<Rightarrow> c | Some i \<Rightarrow> lower_chars ! i)"

definition toLowerCase :: "string \<Rightarrow> string" where
  "toLowerCase s = map lower_char s"

definition digit_chars :: string where
  "digit_chars = ''0123456789''"

text \<open>The decimal rendering of a number inside a template literal.\<close>

fun show_nat :: "nat \<Rightarrow> string" where
  "show_nat n =
     (if n < 10 then [digit_chars ! n]
      else show_nat (n div 10) @ [digit_chars ! (n mod 10)])"

declare show_nat.simps [simp del]

subsection \<open>Base64 as Node's Buffer implements it\<close>

text \<open>
  \<^verbatim>\<open>Buffer.from(s, 'base64')\<close> and \<^verbatim>\<open>buf.toString('base64')\<close> belong to the Node.js
  runtime. Their documented behaviour is modelled here: the encoder emits the standard
  alphabet with \<^verbatim>\<open>=\<close> padding; the decoder accepts the standard and the URL-safe
  alphabet, skips every other character, stops at the first \<^verbatim>\<open>=\<close>, and turns a
  trailing group of two or three sextets into one or two bytes.
\<close>

definition b64_chars :: string where
  "b64_chars = ''ABCDEFGHIJKLMNOPQRSTUVWXYZabcdefghijklmnopqrstuvwxyz0123456789+/''"

definition b64_char :: "nat \<Rightarrow> char" where
  "b64_char n = b64_chars ! n"

fun b64_encode :: "byte list \<Rightarrow> string" where
  "b64_encode (a # b # c # rest) =
     (let n = unat a * 65536 + unat b * 256 + unat c
      in [b64_char (n div 262144), b64_char (n div 4096 mod 64),
          b64_char (n div 64 mod 64), b64_char (n mod 64)]) @ b64_encode rest"
| "b64_encode [a, b] =
     (let n = unat a * 65536 + unat b * 256
      in [b64_char (n div 262144), b64_char (n div 4096 mod 64),
          b64_char (n div 64 mod 64), CHR ''=''])"
| "b64_encode [a] =
     (let n = unat a * 65536
      in [b64_char (n div 262144), b64_char (n div 4096 mod 64), CHR ''='', CHR ''=''])"
| "b64_encode [] = []"

definition unbase64 :: "char \<Rightarrow> nat option" where
  "unbase64 c =
     (if c = CHR ''-'' then Some 62
      else if c = CHR ''_'' then Some 63
      else index_of c b64_chars)"

fun decode_sextets :: "nat list \<Rightarrow> byte list" where
  "decode_sextets (s0 # s1 # s2 # s3 # rest) =
     (let n = ((s0 * 64 + s1) * 64 + s2) * 64 + s3
      in [of_nat (n div 65536), of_nat (n div 256 mod 256), of_nat (n mod 256)])
     @ decode_sextets rest"
| "decode_sextets [s0, s1, s2] =
     (let n = ((s0 * 64 + s1) * 64 + s2) * 64
      in [of_nat (n div 65536), of_nat (n div 256 mod 256)])"
| "decode_sextets [s0, s1] =
     (let n = (s0 * 64 + s1) * 4096
      in [of_nat (n div 65536)])"
| "decode_sextets [s0] = []"
| "decode_sextets [] = []"

definition b64_decode :: "string \<Rightarrow> byte list" where
  "b64_decode s =
     decode_sextets (List.map_filter unbase64 (takeWhile (\<lambda>c. c \<noteq> CHR ''='') s))"

subsection \<open>The controller's regular expression\<close>

text \<open>
  \<^verbatim>\<open>/^data:image\/([a-zA-Z]*);base64,([^\"]*)$/\<close>. The letters group is greedy and
  cannot contain the semicolon that follows it, so the match, when there is one, is
  unique: the first group is the longest run of letters after the prefix.
\<close>

definition is_letter :: "char \<Rightarrow> bool" where
  "is_letter c = (c \<in> set (lower_chars @ upper_chars))"

fun strip_prefix :: "string \<Rightarrow> string \<Rightarrow> string option" where
  "strip_prefix [] s = Some s"
| "strip_prefix (p # ps) [] = None"
| "strip_prefix (p # ps) (c # cs) = (if p = c then strip_prefix ps cs else None)"

definition match_base64Regex :: "string \<Rightarrow> (string \<times> string) option" where
  "match_base64Regex s =
     (case strip_prefix ''data:image/'' s of
        None \<Rightarrow> None
      | Some r \<Rightarrow>
          (case strip_prefix '';base64,'' (dropWhile is_letter r) of
             None \<Rightarrow> None
           | Some d \<Rightarrow>
               if CHR 0x22 \<in> set d then None else Some (takeWhile is_letter r, d)))"

text \<open>The language of the regular expression, written as the pattern reads.\<close>

definition matches_data_url :: "string \<Rightarrow> bool" where
  "matches_data_url s =
     (\<exists>letters payload. s = ''data:image/'' @ letters @ '';base64,'' @ payload
        \<and> list_all is_letter letters \<and> CHR 0x22 \<notin> set payload)"


subsection \<open>Types of \<^verbatim>\<open>dog-detection.types.ts\<close>\<close>

record BoundingBox =
  bbox_x :: real
  bbox_y :: real
  bbox_width :: real
  bbox_height :: real

record DetectedDog =
  dog_id :: "string option"
  confidence :: real
  bbox :: BoundingBox
  imageData :: "string option"
  timestamp :: "string option"

datatype debug_info = TotalDetected nat | ErrorInfo string

record DetectionResult =
  success :: bool
  detectedDogs :: "DetectedDog list"
  error :: "string option"
  debugInfo :: "debug_info option"

text \<open>
  \<^verbatim>\<open>RoboflowPrediction\<close>: \<^verbatim>\<open>crop?.image\<close>, \<^verbatim>\<open>crops?: Array<{image}>\<close> and
  \<^verbatim>\<open>image?\<close> are the three optional places of the cropped image.
\<close>

record RoboflowPrediction =
  pred_class :: js_value
  pred_confidence :: real
  pred_x :: real
  pred_y :: real
  pred_width :: real
  pred_height :: real
  pred_crop :: "string option"
  pred_crops :: "string list option"
  pred_image :: "string option"

text \<open>
  An entry of the predictions array: \<^verbatim>\<open>null\<close>, or an object. An entry that is a
  number, a string or a boolean has no properties and behaves as an object whose
  \<^verbatim>\<open>class\<close> is absent.
\<close>

datatype prediction_entry = PredictionNull | Prediction RoboflowPrediction

text \<open>
  \<^verbatim>\<open>outputs\<close> is not declared by \<^verbatim>\<open>RoboflowResponse\<close>; it arrives through the index
  signature \<^verbatim>\<open>[key: string]: any\<close>. The model keeps the shapes the code tests for: an
  array of outputs, each \<^verbatim>\<open>null\<close> (reading a property of it throws a TypeError) or an
  object whose \<^verbatim>\<open>dynamic_crop\<close> is an array of crops or something else; a crop is
  \<^verbatim>\<open>null\<close> or an object with optional \<^verbatim>\<open>type\<close>, \<^verbatim>\<open>value\<close> and
  \<^verbatim>\<open>video_metadata.frame_timestamp\<close>.
\<close>

datatype crop =
  CropNull
| Crop (crop_type: "string option") (crop_value: "string option")
    (frame_timestamp: "string option")

datatype workflow_output =
  OutputNull
| Output (dynamic_crop: "crop list option")

record RoboflowResponse =
  predictions :: "prediction_entry list option"
  outputs :: "workflow_output list option"
  resp_message :: "string option"

subsection \<open>HTTP client, errors and effects\<close>

text \<open>
  The body of a reply is \<^verbatim>\<open>null\<close> (\<^term>\<open>None\<close>) or a response. A body that is a
  string, a number or a boolean has no properties and behaves as a response with neither
  outputs nor predictions.
\<close>

record http_response =
  status :: nat
  statusText :: string
  data :: "RoboflowResponse option"

text \<open>A thrown JavaScript error: its message and, for an axios error, the response.\<close>

record js_error =
  message :: string
  response :: "http_response option"

text \<open>
  What the controller's handler can throw: the exception it raises itself, or a
  TypeError of the runtime. Nest's built-in exception layer answers the first with the
  status of the exception and anything else with 500.
\<close>

datatype thrown = BadRequestException string | TypeError string

fun http_status :: "thrown \<Rightarrow> nat" where
  "http_status (BadRequestException m) = 400"
| "http_status (TypeError m) = 500"

text \<open>What the network does with one request: no reply at all, or a reply.\<close>

datatype transport = NetworkFailure string | HttpReply http_response

text \<open>
  The options object handed to \<^verbatim>\<open>axios.post\<close>. The options the code does not set
  (\<^verbatim>\<open>signal\<close>, \<^verbatim>\<open>cancelToken\<close>) are absent; \<^verbatim>\<open>Infinity\<close> is \<^term>\<open>None\<close>.
\<close>

record axios_config =
  timeout :: nat
  maxContentLength :: "nat option"
  maxBodyLength :: "nat option"
  validateStatus :: "nat \<Rightarrow> bool"
  signal :: "unit option"
  cancelToken :: "unit option"

datatype effect =
  AxiosPost (post_attempt: nat) (post_url: string) (post_api_key: string)
    (post_image: string) (post_config: axios_config)
| SetTimeout int
| FsMkdir string
| FsAppendFile string string
| ConsoleError string

text \<open>The service object: its two fields and the configuration it reads.\<close>

record service =
  debug :: bool
  logsDir :: string
  roboflow_apiUrl :: string
  roboflow_apiKey :: string

text \<open>The state a request runs in: the service and the effects performed so far.\<close>

record world =
  svc :: service
  effects :: "effect list"

text \<open>
  What lies outside the program during one request: the network's answer to the
  \<open>n\<close>-th attempt, whether the file system operations succeed, and the clock.
\<close>

record env =
  vendor :: "nat \<Rightarrow> transport"
  mkdir_ok :: bool
  append_ok :: bool
  date_now :: nat
  iso_now :: string

definition perform :: "effect \<Rightarrow> world \<Rightarrow> world" where
  "perform e w = w\<lparr>effects := effects w @ [e]\<rparr>"

text \<open>
  \<^verbatim>\<open>axios.post\<close> belongs to the axios library. Its documented behaviour: a request
  with no reply rejects with an error that has no \<^verbatim>\<open>response\<close>; a reply resolves
  when \<^verbatim>\<open>validateStatus(status)\<close> holds and otherwise rejects with an error that
  carries the response.
\<close>

definition axios_post :: "axios_config \<Rightarrow> transport \<Rightarrow> js_error + http_response" where
  "axios_post cfg t =
     (case t of
        NetworkFailure m \<Rightarrow> Inl \<lparr>message = m, response = None\<rparr>
      | HttpReply r \<Rightarrow>
          if validateStatus cfg (status r) then Inr r
          else Inl \<lparr>message = ''Request failed with status code '' @ show_nat (status r),
                    response = Some r\<rparr>)"

section \<open>The service\<close>

subsection \<open>debugLog\<close>

text \<open>
  Nothing happens with the debug flag off. Otherwise the directory is made and the line
  appended; a failure of either is caught and reported on the console. The log line's
  timestamp and JSON payload are left out; the message is kept.
\<close>

definition debugLog :: "env \<Rightarrow> string \<Rightarrow> world \<Rightarrow> world" where
  "debugLog e msg w =
     (if \<not> debug (svc w) then w
      else
        (let w1 = perform (FsMkdir (logsDir (svc w))) w
         in if \<not> mkdir_ok e then perform (ConsoleError ''Error writing to debug log:'') w1
            else
              (let w2 = perform (FsAppendFile (logsDir (svc w) @ ''/roboflow-debug.log'') msg) w1
               in if \<not> append_ok e
                  then perform (ConsoleError ''Error writing to debug log:'') w2
                  else w2)))"

subsection \<open>processWithRoboflow\<close>

definition request_config :: axios_config where
  "request_config =
     \<lparr>timeout = 60000, maxContentLength = None, maxBodyLength = None,
      validateStatus = (\<lambda>_. True), signal = None, cancelToken = None\<rparr>"

text \<open>
  One attempt. A reply with a status of 400 or more is turned into a plain
  \<^verbatim>\<open>Error\<close> inside the \<^verbatim>\<open>try\<close>; the handler logs whatever was thrown and throws it
  again.
\<close>

definition makeRequest ::
  "env \<Rightarrow> string \<Rightarrow> nat \<Rightarrow> world \<Rightarrow> (js_error + RoboflowResponse option) \<times> world" where
  "makeRequest e dataUrl attempt w =
     (let w1 = perform (AxiosPost attempt (roboflow_apiUrl (svc w)) (roboflow_apiKey (svc w))
                 dataUrl request_config) w
      in case axios_post request_config (vendor e attempt) of
           Inl err \<Rightarrow> (Inl err, debugLog e ''Roboflow API Error'' w1)
         | Inr r \<Rightarrow>
             if status r \<ge> 400
             then (Inl \<lparr>message = ''HTTP '' @ show_nat (status r) @ '': '' @ statusText r,
                        response = None\<rparr>,
                   debugLog e ''Roboflow API Error'' w1)
             else (Inr (data r),
                   debugLog e ''Successfully received response from Roboflow API'' w1))"

text \<open>
  \<^verbatim>\<open>error.response?.status >= 400 && error.response?.status < 500 &&
  error.response?.status !== 429\<close>
\<close>

definition no_retry :: "js_error \<Rightarrow> bool" where
  "no_retry err =
     (case response err of
        None \<Rightarrow> False
      | Some r \<Rightarrow> status r \<ge> 400 \<and> status r < 500 \<and> status r \<noteq> 429)"

text \<open>The code after the loop: the error thrown when no attempt returned.\<close>

definition all_retries_failed :: "js_error option \<Rightarrow> js_error" where
  "all_retries_failed lastError =
     (let fromResponse =
            (case lastError of
               None \<Rightarrow> None
             | Some err \<Rightarrow>
                 (case response err of
                    None \<Rightarrow> None
                  | Some r \<Rightarrow> (case data r of None \<Rightarrow> None | Some d \<Rightarrow> resp_message d)));
          fromError = (case lastError of None \<Rightarrow> None | Some err \<Rightarrow> Some (message err));
          errorMessage =
            str_or fromResponse
              (str_or fromError
                 ''Failed to process image with Roboflow after multiple attempts'')
      in \<lparr>message = ''Roboflow API Error: '' @ errorMessage, response = None\<rparr>)"

text \<open>
  The \<^verbatim>\<open>for\<close> loop, from the state \<open>attempt\<close>, \<open>lastError\<close>: it returns the
  response of the first attempt that succeeds, leaves on \<^verbatim>\<open>break\<close>, and otherwise
  sleeps and goes on.
\<close>

function retry_loop ::
  "env \<Rightarrow> string \<Rightarrow> int \<Rightarrow> int \<Rightarrow> nat \<Rightarrow> js_error option \<Rightarrow> world
     \<Rightarrow> (js_error + RoboflowResponse option) \<times> world" where
  "retry_loop e dataUrl retryCount initialDelayMs attempt lastError w =
     (if int attempt \<le> retryCount then
        (case makeRequest e dataUrl attempt w of
           (Inr d, w1) \<Rightarrow> (Inr d, w1)
         | (Inl err, w1) \<Rightarrow>
             if no_retry err then (Inl (all_retries_failed (Some err)), w1)
             else retry_loop e dataUrl retryCount initialDelayMs (Suc attempt) (Some err)
                    (perform (SetTimeout (initialDelayMs * 2 ^ (attempt - 1))) w1))
      else (Inl (all_retries_failed lastError), w))"
  by pat_completeness auto
termination
  by (relation "measure (\<lambda>(e, dataUrl, retryCount, initialDelayMs, attempt, lastError, w).
        nat (retryCount + 1 - int attempt))") auto

declare retry_loop.simps [simp del]

definition processWithRoboflow ::
  "env \<Rightarrow> byte list \<Rightarrow> string \<Rightarrow> int \<Rightarrow> int \<Rightarrow> world
     \<Rightarrow> (js_error + RoboflowResponse option) \<times> world" where
  "processWithRoboflow e imageBuffer mimetype retryCount initialDelayMs w =
     (let base64Image = b64_encode imageBuffer;
          dataUrl = ''data:'' @ mimetype @ '';base64,'' @ base64Image;
          w1 = debugLog e ''Sending request to Roboflow API'' w
      in retry_loop e dataUrl retryCount initialDelayMs 1 None w1)"


subsection \<open>extractDogImages\<close>

text \<open>
  The dog built from a crop. \<^verbatim>\<open>Date.now()\<close> and the ISO timestamp are read from
  the environment, the same for the whole call.
\<close>

definition crop_dog :: "env \<Rightarrow> string \<Rightarrow> nat \<Rightarrow> string option \<Rightarrow> string option \<Rightarrow> DetectedDog" where
  "crop_dog e ts n v ft =
     \<lparr>dog_id = Some (''dog-'' @ show_nat (date_now e) @ ''-'' @ show_nat n),
      confidence = 1,
      bbox = \<lparr>bbox_x = 0, bbox_y = 0, bbox_width = 0, bbox_height = 0\<rparr>,
      imageData = v,
      timestamp = Some (str_or ft ts)\<rparr>"

text \<open>
  The inner loop over \<^verbatim>\<open>output.dynamic_crop\<close>. Reading \<^verbatim>\<open>crop.type\<close> of a
  \<^verbatim>\<open>null\<close> crop throws inside the inner \<^verbatim>\<open>try\<close>, whose handler logs and goes on.
\<close>

fun process_crops ::
  "env \<Rightarrow> string \<Rightarrow> crop list \<Rightarrow> DetectedDog list \<times> world \<Rightarrow> DetectedDog list \<times> world" where
  "process_crops e ts [] st = st"
| "process_crops e ts (c # cs) (dogs, w) =
     process_crops e ts cs
       (case c of
          CropNull \<Rightarrow> (dogs, debugLog e ''Error processing crop'' w)
        | Crop ty v ft \<Rightarrow>
            if ty = Some ''base64'' \<and> truthy v
            then (dogs @ [crop_dog e ts (length dogs) v ft], w)
            else (dogs, w))"

text \<open>
  The outer loop over \<^verbatim>\<open>roboflowResponse.outputs\<close>. Reading
  \<^verbatim>\<open>output.dynamic_crop\<close> of a \<^verbatim>\<open>null\<close> output throws outside the inner
  \<^verbatim>\<open>try\<close>: the loop is left with a TypeError.
\<close>

fun process_outputs ::
  "env \<Rightarrow> string \<Rightarrow> workflow_output list \<Rightarrow> DetectedDog list \<times> world
     \<Rightarrow> (js_error + DetectedDog list) \<times> world" where
  "process_outputs e ts [] (dogs, w) = (Inr dogs, w)"
| "process_outputs e ts (out # outs) (dogs, w) =
     (case out of
        OutputNull \<Rightarrow>
          (Inl \<lparr>message = ''Cannot read properties of null'', response = None\<rparr>, w)
      | Output dc \<Rightarrow>
          process_outputs e ts outs
            (case dc of None \<Rightarrow> (dogs, w) | Some cs \<Rightarrow> process_crops e ts cs (dogs, w)))"

text \<open>
  The callback of the filter, \<^verbatim>\<open>pred.class && pred.class.toLowerCase() === 'dog' &&
  pred.confidence > 0.5\<close>, on one entry. Reading \<^verbatim>\<open>pred.class\<close> of \<^verbatim>\<open>null\<close>
  throws; so does \<^verbatim>\<open>toLowerCase()\<close> on a truthy class that is not a string.
\<close>

fun is_dog_detection :: "prediction_entry \<Rightarrow> js_error + bool" where
  "is_dog_detection PredictionNull =
     Inl \<lparr>message = ''Cannot read properties of null'', response = None\<rparr>"
| "is_dog_detection (Prediction p) =
     (if \<not> truthy_value (pred_class p) then Inr False
      else
        (case pred_class p of
           JStr s \<Rightarrow> Inr (toLowerCase s = ''dog'' \<and> pred_confidence p > 0.5)
         | _ \<Rightarrow> Inl \<lparr>message = ''pred.class.toLowerCase is not a function'',
                      response = None\<rparr>))"

text \<open>
  \<^verbatim>\<open>predictions.filter(...)\<close>: the entries are tested in order, and the first throw
  ends the whole filter.
\<close>

fun filter_dog_detections :: "prediction_entry list \<Rightarrow> js_error + RoboflowPrediction list" where
  "filter_dog_detections [] = Inr []"
| "filter_dog_detections (x # xs) =
     (case is_dog_detection x of
        Inl err \<Rightarrow> Inl err
      | Inr keep \<Rightarrow>
          (case filter_dog_detections xs of
             Inl err \<Rightarrow> Inl err
           | Inr rest \<Rightarrow>
               (case x of
                  Prediction p \<Rightarrow> Inr (if keep then p # rest else rest)
                | PredictionNull \<Rightarrow> Inr rest)))"

text \<open>
  \<^verbatim>\<open>detection.crop?.image\<close>, then \<^verbatim>\<open>detection.crops?.[0]?.image\<close>, then
  \<^verbatim>\<open>detection.image\<close>; the first truthy one.
\<close>

definition detection_imageData :: "RoboflowPrediction \<Rightarrow> string option" where
  "detection_imageData p =
     (let first_crop = (case pred_crops p of None \<Rightarrow> None | Some [] \<Rightarrow> None
                        | Some (i # _) \<Rightarrow> Some i)
      in if truthy (pred_crop p) then pred_crop p
         else if truthy first_crop then first_crop
         else if truthy (pred_image p) then pred_image p
         else None)"

definition detection_dog :: "env \<Rightarrow> string \<Rightarrow> nat \<Rightarrow> RoboflowPrediction \<Rightarrow> DetectedDog" where
  "detection_dog e ts n p =
     \<lparr>dog_id = Some (''dog-'' @ show_nat (date_now e) @ ''-'' @ show_nat n),
      confidence = num_or (pred_confidence p) 1,
      bbox = \<lparr>bbox_x = num_or (pred_x p) 0, bbox_y = num_or (pred_y p) 0,
              bbox_width = num_or (pred_width p) 0, bbox_height = num_or (pred_height p) 0\<rparr>,
      imageData = detection_imageData p,
      timestamp = Some ts\<rparr>"

text \<open>
  The loop over the filtered predictions. Its \<^verbatim>\<open>try\<close> block reads properties of
  an entry that passed the filter, which is an object, and through \<^verbatim>\<open>?.\<close> below
  that: nothing in it throws, so its handler has no branch here.
\<close>

fun process_detections ::
  "env \<Rightarrow> string \<Rightarrow> RoboflowPrediction list \<Rightarrow> DetectedDog list \<Rightarrow> DetectedDog list" where
  "process_detections e ts [] dogs = dogs"
| "process_detections e ts (p # ps) dogs =
     process_detections e ts ps
       (if truthy (detection_imageData p)
        then dogs @ [detection_dog e ts (length dogs) p]
        else dogs)"

text \<open>
  The body of the outer \<^verbatim>\<open>try\<close>: the two loops over the outputs, then the fallback.
  Reading \<^verbatim>\<open>roboflowResponse.outputs\<close> of a \<^verbatim>\<open>null\<close> response throws.
\<close>

definition extract_body ::
  "env \<Rightarrow> RoboflowResponse option \<Rightarrow> world \<Rightarrow> (js_error + DetectedDog list) \<times> world" where
  "extract_body e roboflowResponse w0 =
     (case roboflowResponse of
        None \<Rightarrow> (Inl \<lparr>message = ''Cannot read properties of null'', response = None\<rparr>, w0)
      | Some resp \<Rightarrow>
          (case (case outputs resp of
                   None \<Rightarrow> (Inr [], w0)
                 | Some outs \<Rightarrow> process_outputs e (iso_now e) outs ([], w0)) of
             (Inl err, w1) \<Rightarrow> (Inl err, w1)
           | (Inr dogs, w1) \<Rightarrow>
               (case predictions resp of
                  Some preds \<Rightarrow>
                    if dogs = []
                    then (let w2 = debugLog e
                                     ''No dynamic_crop found, falling back to predictions'' w1
                          in case filter_dog_detections preds of
                               Inl err \<Rightarrow> (Inl err, w2)
                             | Inr dogDetections \<Rightarrow>
                                 (Inr (process_detections e (iso_now e) dogDetections dogs), w2))
                    else (Inr dogs, w1)
                | None \<Rightarrow> (Inr dogs, w1))))"

text \<open>The outer handler logs and returns \<^verbatim>\<open>[]\<close>.\<close>

definition extractDogImages ::
  "env \<Rightarrow> RoboflowResponse option \<Rightarrow> world \<Rightarrow> DetectedDog list \<times> world" where
  "extractDogImages e roboflowResponse w =
     (case extract_body e roboflowResponse (debugLog e ''Roboflow API Response'' w) of
        (Inl err, w1) \<Rightarrow> ([], debugLog e ''Error in extractDogImages'' w1)
      | (Inr dogs, w1) \<Rightarrow> (dogs, w1))"

subsection \<open>detectDogs\<close>

record upload =
  buffer :: "byte list"
  mimetype :: string

text \<open>
  The whole body is inside \<^verbatim>\<open>try\<close>, and the handler returns a result. The type
  still allows an error, which is what the controller's own \<^verbatim>\<open>try\<close> is there for.
\<close>

definition service_detectDogs ::
  "env \<Rightarrow> upload \<Rightarrow> world \<Rightarrow> (js_error + DetectionResult) \<times> world" where
  "service_detectDogs e file w =
     (case processWithRoboflow e (buffer file) (mimetype file) 3 1000 w of
        (Inr roboflowResponse, w1) \<Rightarrow>
          (case extractDogImages e roboflowResponse w1 of
             (dogs, w2) \<Rightarrow>
               (Inr \<lparr>success = True, detectedDogs = dogs, error = None,
                     debugInfo = Some (TotalDetected (length dogs))\<rparr>,
                debugLog e ''Dog detection results'' w2))
      | (Inl err, w1) \<Rightarrow>
          (Inr \<lparr>success = False, detectedDogs = [],
                error = Some (''Failed to detect dogs: '' @ message err),
                debugInfo = Some (ErrorInfo (message err))\<rparr>,
           debugLog e ''Error in detectDogs'' w1))"

section \<open>The controller\<close>

text \<open>
  The body as the handler receives it: an object whose \<^verbatim>\<open>image\<close> is whatever JSON
  value the client sent, or absent. \<^verbatim>\<open>DetectDogsDto\<close> is an interface, which leaves
  nothing at run time for the global \<^verbatim>\<open>ValidationPipe\<close> to check the body against.
\<close>

record DetectDogsDto =
  dto_image :: js_value

text \<open>The two checks before the \<^verbatim>\<open>try\<close> block, on an image that is a string.\<close>

definition validate_image ::
  "string \<Rightarrow> thrown + (string \<times> string)" where
  "validate_image img =
     (if img = [] then Inl (BadRequestException ''No image data provided'')
      else
        (case match_base64Regex img of
           None \<Rightarrow>
             Inl (BadRequestException
               ''Invalid image format. Please provide a valid base64 encoded image.'')
         | Some groups \<Rightarrow> Inr groups))"

text \<open>
  A falsy image is refused by \<^verbatim>\<open>if (!image)\<close>. A truthy image that is not a string
  has no \<^verbatim>\<open>match\<close> method: the call at line 25, before the \<^verbatim>\<open>try\<close>, throws.
\<close>

definition controller_detectDogs ::
  "env \<Rightarrow> DetectDogsDto \<Rightarrow> world \<Rightarrow> (thrown + DetectionResult) \<times> world" where
  "controller_detectDogs e body w =
     (if \<not> truthy_value (dto_image body)
      then (Inl (BadRequestException ''No image data provided''), w)
      else
        (case dto_image body of
           JStr img \<Rightarrow>
             (case validate_image img of
                Inl exn \<Rightarrow> (Inl exn, w)
              | Inr (mimeType, base64Data) \<Rightarrow>
                  (let file = \<lparr>buffer = b64_decode base64Data,
                               mimetype = ''image/'' @ mimeType\<rparr>
                   in case service_detectDogs e file w of
                        (Inr result, w1) \<Rightarrow> (Inr result, w1)
                      | (Inl err, w1) \<Rightarrow>
                          (Inl (BadRequestException
                             (str_or (Some (message err)) ''Failed to process image'')),
                           perform (ConsoleError ''Error in detect-dogs endpoint:'') w1)))
         | _ \<Rightarrow> (Inl (TypeError ''image.match is not a function''), w)))"

section \<open>Observing a run\<close>

text \<open>
  The effects a call adds to the world, and the projections of an effect list the
  statements below are about: the requests, the delays handed to \<^verbatim>\<open>setTimeout\<close>,
  the file-system operations.
\<close>

definition effects_since :: "world \<Rightarrow> world \<Rightarrow> effect list" where
  "effects_since w w' = drop (length (effects w)) (effects w')"

fun is_post :: "effect \<Rightarrow> bool" where
  "is_post (AxiosPost n u k i c) = True"
| "is_post _ = False"

fun delay_of :: "effect \<Rightarrow> int list" where
  "delay_of (SetTimeout d) = [d]"
| "delay_of _ = []"

fun is_fs_op :: "effect \<Rightarrow> bool" where
  "is_fs_op (FsMkdir d) = True"
| "is_fs_op (FsAppendFile f m) = True"
| "is_fs_op _ = False"

fun is_net :: "effect \<Rightarrow> bool" where
  "is_net (AxiosPost n u k i c) = True"
| "is_net (SetTimeout d) = True"
| "is_net _ = False"

definition posts :: "effect list \<Rightarrow> effect list" where
  "posts effs = filter is_post effs"

definition scheduled_delays :: "effect list \<Rightarrow> int list" where
  "scheduled_delays effs = concat (map delay_of effs)"

text \<open>The later world keeps the service and only appends to the effects.\<close>

definition extends :: "world \<Rightarrow> world \<Rightarrow> bool" where
  "extends w w' = (svc w' = svc w \<and> effects w' = effects w @ effects_since w w')"

definition quiet :: "effect list \<Rightarrow> bool" where
  "quiet effs = (posts effs = [] \<and> scheduled_delays effs = [])"

text \<open>
  A step that only logs: the service is kept, neither a request nor a delay is added,
  and nothing at all when the debug flag is off.
\<close>

definition logs_only :: "world \<Rightarrow> world \<Rightarrow> bool" where
  "logs_only w w' =
     (extends w w' \<and> quiet (effects_since w w') \<and> (\<not> debug (svc w) \<longrightarrow> w' = w))"

definition fs_free :: "world \<Rightarrow> world \<Rightarrow> bool" where
  "fs_free w w' =
     (extends w w' \<and> (\<not> debug (svc w) \<longrightarrow> filter is_fs_op (effects_since w w') = []))"

text \<open>The delay after failed attempt \<open>i\<close>, and the request of attempt \<open>n\<close>.\<close>

definition backoff :: "int \<Rightarrow> nat \<Rightarrow> int" where
  "backoff d i = d * 2 ^ (i - 1)"

definition the_post :: "service \<Rightarrow> string \<Rightarrow> nat \<Rightarrow> effect" where
  "the_post s u n = AxiosPost n (roboflow_apiUrl s) (roboflow_apiKey s) u request_config"

definition data_url :: "byte list \<Rightarrow> string \<Rightarrow> string" where
  "data_url imageBuffer mt = ''data:'' @ mt @ '';base64,'' @ b64_encode imageBuffer"

text \<open>
  \<open>j\<close> failed attempts in a row, from attempt \<open>a\<close>: each request is followed by
  its delay.
\<close>

definition failed_rounds :: "service \<Rightarrow> string \<Rightarrow> int \<Rightarrow> nat \<Rightarrow> nat \<Rightarrow> effect list" where
  "failed_rounds s u d a j =
     concat (map (\<lambda>i. [the_post s u i, SetTimeout (backoff d i)]) [a..<a + j])"

text \<open>
  The requests and delays of one call of \<^verbatim>\<open>processWithRoboflow\<close>: \<open>k\<close> requests,
  numbered from 1; a delay after each failed one.
\<close>

definition call_trace :: "world \<Rightarrow> string \<Rightarrow> int \<Rightarrow> int \<Rightarrow> bool \<Rightarrow> world \<Rightarrow> bool" where
  "call_trace w u rc d failed w' =
     (\<exists>k. extends w w'
        \<and> posts (effects_since w w') = map (the_post (svc w) u) [1..<1 + k]
        \<and> (if failed
            then k = nat rc \<and> scheduled_delays (effects_since w w') = map (backoff d) [1..<1 + k]
            else 0 < k \<and> int k \<le> rc
              \<and> scheduled_delays (effects_since w w') = map (backoff d) [1..<k]))"

text \<open>The two results \<^verbatim>\<open>detectDogs\<close> of the service builds.\<close>

definition failure_result :: "js_error \<Rightarrow> DetectionResult" where
  "failure_result err =
     \<lparr>success = False, detectedDogs = [],
      error = Some (''Failed to detect dogs: '' @ message err),
      debugInfo = Some (ErrorInfo (message err))\<rparr>"

definition success_result :: "DetectedDog list \<Rightarrow> DetectionResult" where
  "success_result dogs =
     \<lparr>success = True, detectedDogs = dogs, error = None,
      debugInfo = Some (TotalDetected (length dogs))\<rparr>"

text \<open>The file object the controller builds from the two groups of the match.\<close>

definition upload_of :: "string \<times> string \<Rightarrow> upload" where
  "upload_of groups = \<lparr>buffer = b64_decode (snd groups), mimetype = ''image/'' @ fst groups\<rparr>"

text \<open>An attempt fails when the network gives no reply or the reply has a status of 400 or more.\<close>

definition failing :: "transport \<Rightarrow> bool" where
  "failing t = (case t of NetworkFailure m \<Rightarrow> True | HttpReply r \<Rightarrow> status r \<ge> 400)"

text \<open>The error \<^verbatim>\<open>makeRequest\<close> throws for a failing attempt.\<close>

definition attempt_error :: "transport \<Rightarrow> js_error" where
  "attempt_error t =
     (case t of
        NetworkFailure m \<Rightarrow> \<lparr>message = m, response = None\<rparr>
      | HttpReply r \<Rightarrow>
          \<lparr>message = ''HTTP '' @ show_nat (status r) @ '': '' @ statusText r,
           response = None\<rparr>)"

text \<open>A request with the 60 second timeout and no cancellation option.\<close>

definition fixed_timeout :: "effect \<Rightarrow> bool" where
  "fixed_timeout p =
     (timeout (post_config p) = 60000 \<and> signal (post_config p) = None
      \<and> cancelToken (post_config p) = None)"

text \<open>The same world after other effects \<open>h\<close> have happened first.\<close>

definition with_history :: "effect list \<Rightarrow> world \<Rightarrow> world" where
  "with_history h w = w\<lparr>effects := h @ effects w\<rparr>"

definition lift_history :: "effect list \<Rightarrow> 'a \<times> world \<Rightarrow> 'a \<times> world" where
  "lift_history h rw = (fst rw, with_history h (snd rw))"

subsection \<open>What the extraction returns\<close>

text \<open>The crops that become dogs: type \<^verbatim>\<open>'base64'\<close> and a truthy value.\<close>

fun is_base64_crop :: "crop \<Rightarrow> bool" where
  "is_base64_crop CropNull = False"
| "is_base64_crop (Crop ty v ft) = (ty = Some ''base64'' \<and> truthy v)"

fun output_crops :: "workflow_output \<Rightarrow> crop list" where
  "output_crops OutputNull = []"
| "output_crops (Output None) = []"
| "output_crops (Output (Some cs)) = filter is_base64_crop cs"

text \<open>The base64 \<^verbatim>\<open>dynamic_crop\<close> entries of the outputs array, in order.\<close>

definition crops_of_response :: "RoboflowResponse \<Rightarrow> crop list" where
  "crops_of_response r =
     (case outputs r of None \<Rightarrow> [] | Some outs \<Rightarrow> concat (map output_crops outs))"

text \<open>The entries of the predictions array that are not \<^verbatim>\<open>null\<close>.\<close>

fun prediction_objects :: "prediction_entry list \<Rightarrow> RoboflowPrediction list" where
  "prediction_objects [] = []"
| "prediction_objects (PredictionNull # xs) = prediction_objects xs"
| "prediction_objects (Prediction p # xs) = p # prediction_objects xs"

text \<open>The class is a string equal to \<^verbatim>\<open>dog\<close> whatever the case of its letters.\<close>

fun class_is_dog :: "js_value \<Rightarrow> bool" where
  "class_is_dog (JStr s) = (toLowerCase s = ''dog'')"
| "class_is_dog _ = False"

text \<open>
  The predictions of the fallback, as the specification words them: class equal to
  \<^verbatim>\<open>dog\<close> whatever the case of its letters, confidence above one half, image data
  present.
\<close>

definition fallback_predictions :: "RoboflowResponse \<Rightarrow> RoboflowPrediction list" where
  "fallback_predictions r =
     (case predictions r of
        None \<Rightarrow> []
      | Some ps \<Rightarrow>
          filter (\<lambda>p. class_is_dog (pred_class p) \<and> pred_confidence p > 0.5
                      \<and> truthy (detection_imageData p)) (prediction_objects ps))"

text \<open>
  An entry of the predictions array the filter cannot test: \<^verbatim>\<open>null\<close>, or an object
  whose class is truthy and not a string (a number other than zero, \<^verbatim>\<open>true\<close>, an
  array, an object).
\<close>

fun untestable :: "prediction_entry \<Rightarrow> bool" where
  "untestable PredictionNull = True"
| "untestable (Prediction p) =
     (case pred_class p of JStr s \<Rightarrow> False | v \<Rightarrow> truthy_value v)"

definition has_null_output :: "RoboflowResponse \<Rightarrow> bool" where
  "has_null_output r = (case outputs r of None \<Rightarrow> False | Some outs \<Rightarrow> OutputNull \<in> set outs)"

definition has_untestable_prediction :: "RoboflowResponse \<Rightarrow> bool" where
  "has_untestable_prediction r =
     (case predictions r of None \<Rightarrow> False | Some ps \<Rightarrow> list_ex untestable ps)"

text \<open>
  The responses for which the outer handler returns \<^verbatim>\<open>[]\<close>: an entry of the outputs
  array is \<^verbatim>\<open>null\<close>; or there is no base64 crop, so that the predictions are
  consulted, and one of them cannot be tested.
\<close>

definition extraction_failed :: "RoboflowResponse \<Rightarrow> bool" where
  "extraction_failed r =
     (has_null_output r \<or> (crops_of_response r = [] \<and> has_untestable_prediction r))"


definition dog_of_crop :: "env \<Rightarrow> nat \<times> crop \<Rightarrow> DetectedDog" where
  "dog_of_crop e ic = crop_dog e (iso_now e) (fst ic) (crop_value (snd ic)) (frame_timestamp (snd ic))"

definition dog_of_prediction :: "env \<Rightarrow> nat \<times> RoboflowPrediction \<Rightarrow> DetectedDog" where
  "dog_of_prediction e ip = detection_dog e (iso_now e) (fst ip) (snd ip)"

definition zero_bbox :: BoundingBox where
  "zero_bbox = \<lparr>bbox_x = 0, bbox_y = 0, bbox_width = 0, bbox_height = 0\<rparr>"

definition prediction_bbox :: "RoboflowPrediction \<Rightarrow> BoundingBox" where
  "prediction_bbox p =
     \<lparr>bbox_x = pred_x p, bbox_y = pred_y p, bbox_width = pred_width p,
      bbox_height = pred_height p\<rparr>"

subsection \<open>Concrete inputs\<close>

definition example_service :: service where
  "example_service =
     \<lparr>debug = False, logsDir = ''/srv/logs'',
      roboflow_apiUrl = ''https://vendor.example/infer'', roboflow_apiKey = ''key''\<rparr>"

definition example_world :: world where
  "example_world = \<lparr>svc = example_service, effects = []\<rparr>"

definition example_prediction :: RoboflowPrediction where
  "example_prediction =
     \<lparr>pred_class = JStr ''Dog'', pred_confidence = 9 / 10, pred_x = 10, pred_y = 20,
      pred_width = 30, pred_height = 40, pred_crop = None, pred_crops = None,
      pred_image = Some ''QUJD''\<rparr>"

definition example_response :: RoboflowResponse where
  "example_response =
     \<lparr>predictions = Some [Prediction example_prediction], outputs = None, resp_message = None\<rparr>"

definition empty_response :: RoboflowResponse where
  "empty_response = \<lparr>predictions = None, outputs = None, resp_message = None\<rparr>"

definition crop_response :: RoboflowResponse where
  "crop_response =
     \<lparr>predictions = Some [Prediction example_prediction],
      outputs = Some [Output (Some [Crop (Some ''base64'') (Some ''QUJD'') None])],
      resp_message = None\<rparr>"




definition example_dog :: DetectedDog where
  "example_dog =
     \<lparr>dog_id = Some ''dog-1700000000000-0'', confidence = 9 / 10,
      bbox = \<lparr>bbox_x = 10, bbox_y = 20, bbox_width = 30, bbox_height = 40\<rparr>,
      imageData = Some ''QUJD'', timestamp = Some ''2023-11-14T22:13:20.000Z''\<rparr>"

definition example_image :: string where
  "example_image = ''data:image/png;base64,QUJD''"

text \<open>A vendor that times out, then answers 503, then answers 200.\<close>

definition flaky_env :: env where
  "flaky_env =
     \<lparr>vendor = (\<lambda>n. if n = 1 then NetworkFailure ''timeout of 60000ms exceeded''
                     else if n = 2
                     then HttpReply \<lparr>status = 503, statusText = ''Service Unavailable'',
                                     data = Some empty_response\<rparr>
                     else HttpReply \<lparr>status = 200, statusText = ''OK'',
                                     data = Some example_response\<rparr>),
      mkdir_ok = True, append_ok = True, date_now = 1700000000000,
      iso_now = ''2023-11-14T22:13:20.000Z''\<rparr>"

definition steady_env :: env where
  "steady_env =
     \<lparr>vendor = (\<lambda>n. HttpReply \<lparr>status = 200, statusText = ''OK'', data = Some example_response\<rparr>),
      mkdir_ok = True, append_ok = True, date_now = 1700000000000,
      iso_now = ''2023-11-14T22:13:20.000Z''\<rparr>"

text \<open>A vendor that answers every attempt with 404.\<close>

definition not_found_env :: env where
  "not_found_env =
     \<lparr>vendor = (\<lambda>n. HttpReply \<lparr>status = 404, statusText = ''Not Found'', data = Some empty_response\<rparr>),
      mkdir_ok = True, append_ok = True, date_now = 1700000000000,
      iso_now = ''2023-11-14T22:13:20.000Z''\<rparr>"


section \<open>Lemmas about the effects of a call\<close>

subsection \<open>Worlds only grow\<close>

lemma extendsI: "svc w' = svc w \<Longrightarrow> effects w' = effects w @ new \<Longrightarrow> extends w w'"
  by (simp add: extends_def effects_since_def)

lemma since_eq: "effects w' = effects w @ new \<Longrightarrow> effects_since w w' = new"
  by (simp add: effects_since_def)

lemma extends_refl: "extends w w" by (simp add: extends_def effects_since_def)

lemma extends_trans: "extends a b \<Longrightarrow> extends b c \<Longrightarrow> extends a c"
proof -
  assume ab: "extends a b" and bc: "extends b c"
  have "effects c = effects a @ (effects_since a b @ effects_since b c)"
    using ab bc by (simp add: extends_def)
  moreover have "svc c = svc a" using ab bc by (simp add: extends_def)
  ultimately show ?thesis by (rule extendsI[rotated])
qed

lemma since_trans:
  "extends a b \<Longrightarrow> extends b c \<Longrightarrow> effects_since a c = effects_since a b @ effects_since b c"
proof -
  assume ab: "extends a b" and bc: "extends b c"
  have "effects c = effects a @ (effects_since a b @ effects_since b c)"
    using ab bc by (simp add: extends_def)
  then show ?thesis by (rule since_eq)
qed

lemma extends_perform: "extends w (perform x w)"
  by (simp add: extends_def perform_def effects_since_def)

lemma since_perform: "effects_since w (perform x w) = [x]"
  by (simp add: effects_since_def perform_def)

lemma since_refl: "effects_since w w = []"
  by (simp add: effects_since_def)

lemma extends_debugLog: "extends w (debugLog e m w)"
  by (simp add: debugLog_def Let_def extends_def perform_def effects_since_def)

lemma delays_debugLog: "scheduled_delays (effects_since w (debugLog e m w)) = []"
  by (simp add: debugLog_def Let_def effects_since_def perform_def scheduled_delays_def)

lemma debugLog_off: "\<not> debug (svc w) \<Longrightarrow> debugLog e m w = w"
  by (simp add: debugLog_def)

lemma posts_append [simp]: "posts (a @ b) = posts a @ posts b" by (simp add: posts_def)

lemma delays_append [simp]: "scheduled_delays (a @ b) = scheduled_delays a @ scheduled_delays b" by (simp add: scheduled_delays_def)

lemma posts_debugLog2: "posts (effects_since w (debugLog e m w)) = []"
  by (simp add: debugLog_def Let_def effects_since_def perform_def posts_def)

lemma svc_debugLog: "svc (debugLog e m w) = svc w"
  by (simp add: debugLog_def Let_def perform_def)

lemma makeRequest_extends: "extends w (snd (makeRequest e u a w))"
  unfolding makeRequest_def Let_def
  by (auto split: sum.split intro!: extends_trans[OF extends_perform extends_debugLog])

lemma makeRequest_since:
  "\<exists>logs. effects_since w (snd (makeRequest e u a w)) = the_post (svc w) u a # logs
      \<and> posts logs = [] \<and> scheduled_delays logs = [] \<and> (\<not> debug (svc w) \<longrightarrow> logs = [])"
proof -
  let ?w1 = "perform (the_post (svc w) u a) w"
  have A: "\<And>m. effects_since w (debugLog e m ?w1) = the_post (svc w) u a # effects_since ?w1 (debugLog e m ?w1)"
    using since_trans[OF extends_perform extends_debugLog] by (simp add: since_perform)
  have B: "\<And>m. posts (effects_since ?w1 (debugLog e m ?w1)) = []" by (rule posts_debugLog2)
  have C: "\<And>m. scheduled_delays (effects_since ?w1 (debugLog e m ?w1)) = []" by (rule delays_debugLog)
  have D: "\<And>m. \<not> debug (svc w) \<Longrightarrow> effects_since ?w1 (debugLog e m ?w1) = []"
    by (simp add: debugLog_def perform_def effects_since_def)
  show ?thesis
    unfolding makeRequest_def Let_def the_post_def[symmetric]
    by (auto split: sum.split simp: A B C D)
qed

lemma makeRequest_error: "fst (makeRequest e u a w) = Inl err \<Longrightarrow> response err = None"
  unfolding makeRequest_def Let_def
  by (auto simp: axios_post_def request_config_def split: sum.splits transport.splits if_splits)

lemma makeRequest_no_break: "fst (makeRequest e u a w) = Inl err \<Longrightarrow> \<not> no_retry err"
  by (simp add: no_retry_def makeRequest_error)

subsection \<open>The requests and delays of the retry loop\<close>

lemma upt_shift: "[a..<a + Suc k] = a # [Suc a..<Suc a + k]"
  by (simp add: upt_conv_Cons del: upt_Suc)

lemma retry_loop_trace:
  "\<exists>k. extends w (snd (retry_loop e u rc d a le w))
     \<and> posts (effects_since w (snd (retry_loop e u rc d a le w)))
         = map (the_post (svc w) u) [a..<a + k]
     \<and> (case fst (retry_loop e u rc d a le w) of
          Inl err \<Rightarrow> k = nat (rc + 1 - int a)
            \<and> scheduled_delays (effects_since w (snd (retry_loop e u rc d a le w)))
                = map (backoff d) [a..<a + k]
        | Inr r \<Rightarrow> 0 < k \<and> int (a + k) \<le> rc + 1
            \<and> scheduled_delays (effects_since w (snd (retry_loop e u rc d a le w)))
                = map (backoff d) [a..<a + k - 1])"
proof (induction e u rc d a le w rule: retry_loop.induct)
  case (1 e u rc d a le w)
  show ?case
  proof (cases "int a \<le> rc")
    case False
    then have R: "retry_loop e u rc d a le w = (Inl (all_retries_failed le), w)"
      by (simp add: retry_loop.simps)
    show ?thesis unfolding R using False
      by (intro exI[of _ 0]) (simp add: extends_refl since_refl posts_def scheduled_delays_def)
  next
    case True
    obtain x y where M: "makeRequest e u a w = (x, y)" by (cases "makeRequest e u a w")
    have ext_y: "extends w y" using makeRequest_extends[of w e u a] M by simp
    obtain logs where L: "effects_since w y = the_post (svc w) u a # logs"
      "posts logs = []" "scheduled_delays logs = []"
      using makeRequest_since[of w e u a] M by auto
    have py: "posts (effects_since w y) = [the_post (svc w) u a]"
      using L by (simp add: posts_def the_post_def)
    have dy: "scheduled_delays (effects_since w y) = []"
      using L by (simp add: scheduled_delays_def the_post_def)
    show ?thesis
    proof (cases x)
      case (Inr r)
      have R: "retry_loop e u rc d a le w = (Inr r, y)"
        using True M Inr by (simp add: retry_loop.simps)
      show ?thesis unfolding R using True ext_y py dy
        by (intro exI[of _ 1]) simp
    next
      case (Inl err)
      have nb: "\<not> no_retry err" using makeRequest_no_break[of e u a w err] M Inl by simp
      let ?w2 = "perform (SetTimeout (d * 2 ^ (a - 1))) y"
      let ?R = "retry_loop e u rc d (Suc a) (Some err) ?w2"
      have R: "retry_loop e u rc d a le w = ?R"
        using True M Inl nb by (simp add: retry_loop.simps)
      from "1.IH"[OF True M[symmetric] Inl nb]
      obtain k where IH: "extends ?w2 (snd ?R)"
        "posts (effects_since ?w2 (snd ?R)) = map (the_post (svc ?w2) u) [Suc a..<Suc a + k]"
        "(case fst ?R of
            Inl err \<Rightarrow> k = nat (rc + 1 - int (Suc a))
              \<and> scheduled_delays (effects_since ?w2 (snd ?R)) = map (backoff d) [Suc a..<Suc a + k]
          | Inr r \<Rightarrow> 0 < k \<and> int (Suc a + k) \<le> rc + 1
              \<and> scheduled_delays (effects_since ?w2 (snd ?R)) = map (backoff d) [Suc a..<Suc a + k - 1])"
        by blast
      have ext_w2: "extends w ?w2" by (rule extends_trans[OF ext_y extends_perform])
      have svc2: "svc ?w2 = svc w" using ext_w2 by (simp add: extends_def)
      have s2: "effects_since w ?w2 = effects_since w y @ [SetTimeout (d * 2 ^ (a - 1))]"
        using since_trans[OF ext_y extends_perform] by (simp add: since_perform)
      have sR: "effects_since w (snd ?R) = effects_since w ?w2 @ effects_since ?w2 (snd ?R)"
        by (rule since_trans[OF ext_w2 IH(1)])
      have pR: "posts (effects_since w (snd ?R)) = map (the_post (svc w) u) [a..<a + Suc k]"
        unfolding sR s2 upt_shift posts_append py IH(2) svc2
        by (simp add: posts_def del: upt_Suc)
      have dR: "scheduled_delays (effects_since w (snd ?R))
                  = backoff d a # scheduled_delays (effects_since ?w2 (snd ?R))"
        unfolding sR s2 using dy by (simp add: scheduled_delays_def backoff_def)
      have extR: "extends w (snd ?R)" by (rule extends_trans[OF ext_w2 IH(1)])
      show ?thesis
      proof (cases "fst ?R")
        case (Inl err2)
        with IH(3) have k: "k = nat (rc + 1 - int (Suc a))"
          and dd: "scheduled_delays (effects_since ?w2 (snd ?R)) = map (backoff d) [Suc a..<Suc a + k]"
          by simp_all
        have "Suc k = nat (rc + 1 - int a)" using k True by simp
        moreover have "scheduled_delays (effects_since w (snd ?R)) = map (backoff d) [a..<a + Suc k]"
          unfolding dR dd upt_shift by (simp del: upt_Suc)
        ultimately show ?thesis unfolding R using extR pR Inl
          by (intro exI[of _ "Suc k"]) simp
      next
        case (Inr r)
        with IH(3) have k: "0 < k" "int (Suc a + k) \<le> rc + 1"
          and dd: "scheduled_delays (effects_since ?w2 (snd ?R)) = map (backoff d) [Suc a..<Suc a + k - 1]"
          by simp_all
        obtain j where j: "k = Suc j" using k(1) by (cases k) simp_all
        have "scheduled_delays (effects_since w (snd ?R)) = map (backoff d) [a..<a + Suc j]"
          unfolding dR dd j upt_shift by (simp del: upt_Suc)
        then have "scheduled_delays (effects_since w (snd ?R)) = map (backoff d) [a..<a + Suc k - 1]"
          unfolding j by simp
        then show ?thesis unfolding R using extR pR Inr k
          by (intro exI[of _ "Suc k"]) simp
      qed
    qed
  qed
qed

subsection \<open>Steps that only log\<close>

lemma effects_debugLog_off: "\<not> debug (svc w) \<Longrightarrow> effects_since w (debugLog e m w) = []"
  by (simp add: debugLog_off since_refl)

lemma quiet_Nil [simp]: "quiet []" by (simp add: quiet_def posts_def scheduled_delays_def)

lemma quiet_append [simp]: "quiet (a @ b) = (quiet a \<and> quiet b)" by (auto simp: quiet_def)

lemma logs_only_refl: "logs_only w w"
  by (simp add: logs_only_def extends_refl since_refl)

lemma logs_only_trans: "logs_only a b \<Longrightarrow> logs_only b c \<Longrightarrow> logs_only a c"
  unfolding logs_only_def
  using extends_trans[of a b c] since_trans[of a b c]
  by (auto simp: extends_def)

lemma logs_only_debugLog: "logs_only w (debugLog e m w)"
  by (simp add: logs_only_def extends_debugLog quiet_def posts_debugLog2 delays_debugLog debugLog_off)

lemma process_crops_logs: "logs_only w (snd (process_crops e ts cs (dogs, w)))"
proof (induction cs arbitrary: dogs w)
  case Nil
  show ?case by (simp add: logs_only_refl)
next
  case (Cons c cs)
  show ?case
  proof (cases c)
    case CropNull
    then show ?thesis
      using logs_only_trans[OF logs_only_debugLog Cons.IH] by simp
  next
    case (Crop ty v ft)
    then show ?thesis using Cons.IH by simp
  qed
qed

lemma process_outputs_logs: "logs_only w (snd (process_outputs e ts outs (dogs, w)))"
proof (induction outs arbitrary: dogs w)
  case Nil
  show ?case by (simp add: logs_only_refl)
next
  case (Cons out outs)
  show ?case
  proof (cases out)
    case OutputNull
    then show ?thesis by (simp add: logs_only_refl)
  next
    case (Output dc)
    show ?thesis
    proof (cases dc)
      case None
      then show ?thesis using Output Cons.IH by simp
    next
      case (Some cs)
      obtain dogs1 w1 where P: "process_crops e ts cs (dogs, w) = (dogs1, w1)"
        by (cases "process_crops e ts cs (dogs, w)")
      have "logs_only w w1" using process_crops_logs[of w e ts cs dogs] P by simp
      from logs_only_trans[OF this Cons.IH[of w1 dogs1]]
      show ?thesis using Output Some P by simp
    qed
  qed
qed

lemma extract_body_logs: "logs_only w (snd (extract_body e r w))"
proof (cases r)
  case None
  then show ?thesis by (simp add: extract_body_def logs_only_refl)
next
  case (Some resp)
  obtain x w1 where X: "(case outputs resp of None \<Rightarrow> (Inr [], w)
            | Some outs \<Rightarrow> process_outputs e (iso_now e) outs ([], w)) = (x, w1)"
    by (cases "(case outputs resp of None \<Rightarrow> (Inr [], w)
            | Some outs \<Rightarrow> process_outputs e (iso_now e) outs ([], w))")
  have L1: "logs_only w w1"
  proof (cases "outputs resp")
    case None
    then show ?thesis using X by (auto simp: logs_only_refl)
  next
    case (Some outs)
    then show ?thesis using X process_outputs_logs[of w e "iso_now e" outs "[]"] by simp
  qed
  have L2: "\<And>m. logs_only w (debugLog e m w1)"
    by (rule logs_only_trans[OF L1 logs_only_debugLog])
  show ?thesis
    unfolding extract_body_def Let_def Some option.case X
    using L1 L2 by (auto split: sum.split option.split)
qed

lemma extractDogImages_logs: "logs_only w (snd (extractDogImages e r w))"
proof -
  let ?w0 = "debugLog e ''Roboflow API Response'' w"
  obtain x w1 where X: "extract_body e r ?w0 = (x, w1)"
    by (cases "extract_body e r ?w0")
  have "logs_only ?w0 w1" using extract_body_logs[of ?w0 e r] X by simp
  then have L1: "logs_only w w1" by (rule logs_only_trans[OF logs_only_debugLog])
  have L2: "\<And>m. logs_only w (debugLog e m w1)"
    by (rule logs_only_trans[OF L1 logs_only_debugLog])
  show ?thesis
    unfolding extractDogImages_def X
    using L1 L2 by (auto split: sum.split)
qed

subsection \<open>No file-system operation with the debug flag off\<close>

lemma fs_free_trans: "fs_free a b \<Longrightarrow> fs_free b c \<Longrightarrow> fs_free a c"
  unfolding fs_free_def
  using extends_trans[of a b c] since_trans[of a b c]
  by (auto simp: extends_def)

lemma fs_free_logs: "logs_only w w' \<Longrightarrow> fs_free w w'"
  by (auto simp: fs_free_def logs_only_def since_refl)

lemma fs_free_perform: "\<not> is_fs_op x \<Longrightarrow> fs_free w (perform x w)"
  by (simp add: fs_free_def extends_perform since_perform)

lemma fs_free_makeRequest: "fs_free w (snd (makeRequest e u a w))"
  using makeRequest_since[of w e u a] makeRequest_extends[of w e u a]
  by (auto simp: fs_free_def the_post_def)

lemma fs_free_retry_loop: "fs_free w (snd (retry_loop e u rc d a le w))"
proof (induction e u rc d a le w rule: retry_loop.induct)
  case (1 e u rc d a le w)
  obtain x y where M: "makeRequest e u a w = (x, y)" by (cases "makeRequest e u a w")
  have F: "fs_free w y" using fs_free_makeRequest[of w e u a] M by simp
  show ?case
  proof (cases "int a \<le> rc")
    case False
    then show ?thesis
      by (simp add: retry_loop.simps fs_free_logs logs_only_refl)
  next
    case True
    show ?thesis
    proof (cases x)
      case (Inr r)
      then show ?thesis using True M F by (simp add: retry_loop.simps)
    next
      case (Inl err)
      have nb: "\<not> no_retry err" using makeRequest_no_break[of e u a w err] M Inl by simp
      have "fs_free y (perform (SetTimeout (d * 2 ^ (a - 1))) y)"
        by (rule fs_free_perform) simp
      from fs_free_trans[OF fs_free_trans[OF F this] "1.IH"[OF True M[symmetric] Inl nb]]
      show ?thesis using True M Inl nb by (simp add: retry_loop.simps)
    qed
  qed
qed

subsection \<open>The trace of a call, up to the controller\<close>

lemma call_trace_retry_loop:
  "call_trace w u rc d (isl (fst (retry_loop e u rc d 1 le w))) (snd (retry_loop e u rc d 1 le w))"
proof -
  from retry_loop_trace[of w e u rc d 1 le]
  obtain k where K: "extends w (snd (retry_loop e u rc d 1 le w))"
    "posts (effects_since w (snd (retry_loop e u rc d 1 le w)))
         = map (the_post (svc w) u) [1..<1 + k]"
    "(case fst (retry_loop e u rc d 1 le w) of
          Inl err \<Rightarrow> k = nat (rc + 1 - int 1)
            \<and> scheduled_delays (effects_since w (snd (retry_loop e u rc d 1 le w)))
                = map (backoff d) [1..<1 + k]
        | Inr r \<Rightarrow> 0 < k \<and> int (1 + k) \<le> rc + 1
            \<and> scheduled_delays (effects_since w (snd (retry_loop e u rc d 1 le w)))
                = map (backoff d) [1..<1 + k - 1])" by blast
  show ?thesis
    unfolding call_trace_def
    apply (rule exI[of _ k])
    using K by (cases "fst (retry_loop e u rc d 1 le w)") simp_all
qed

lemma call_trace_after: "call_trace w u rc d f w1 \<Longrightarrow> logs_only w1 w2 \<Longrightarrow> call_trace w u rc d f w2"
proof -
  assume C: "call_trace w u rc d f w1" and L: "logs_only w1 w2"
  from C obtain k where K: "extends w w1"
     "posts (effects_since w w1) = map (the_post (svc w) u) [1..<1 + k]"
     "(if f then k = nat rc \<and> scheduled_delays (effects_since w w1) = map (backoff d) [1..<1 + k]
            else 0 < k \<and> int k \<le> rc
              \<and> scheduled_delays (effects_since w w1) = map (backoff d) [1..<k])"
    unfolding call_trace_def by blast
  have E: "extends w1 w2" and Q: "posts (effects_since w1 w2) = []" "scheduled_delays (effects_since w1 w2) = []"
    using L by (simp_all add: logs_only_def quiet_def)
  have S: "effects_since w w2 = effects_since w w1 @ effects_since w1 w2"
    by (rule since_trans[OF K(1) E])
  show ?thesis unfolding call_trace_def
    apply (rule exI[of _ k])
    using extends_trans[OF K(1) E] K(2,3) Q by (simp add: S)
qed

lemma call_trace_before: "logs_only w w1 \<Longrightarrow> call_trace w1 u rc d f w2 \<Longrightarrow> call_trace w u rc d f w2"
proof -
  assume L: "logs_only w w1" and C: "call_trace w1 u rc d f w2"
  from C obtain k where K: "extends w1 w2"
     "posts (effects_since w1 w2) = map (the_post (svc w1) u) [1..<1 + k]"
     "(if f then k = nat rc \<and> scheduled_delays (effects_since w1 w2) = map (backoff d) [1..<1 + k]
            else 0 < k \<and> int k \<le> rc
              \<and> scheduled_delays (effects_since w1 w2) = map (backoff d) [1..<k])"
    unfolding call_trace_def by blast
  have E: "extends w w1" and Q: "posts (effects_since w w1) = []" "scheduled_delays (effects_since w w1) = []"
    using L by (simp_all add: logs_only_def quiet_def)
  have V: "svc w1 = svc w" using E by (simp add: extends_def)
  have S: "effects_since w w2 = effects_since w w1 @ effects_since w1 w2"
    by (rule since_trans[OF E K(1)])
  show ?thesis unfolding call_trace_def
    apply (rule exI[of _ k])
    using extends_trans[OF E K(1)] K(2,3) Q V by (simp add: S)
qed

lemma call_trace_processWithRoboflow:
  "call_trace w (data_url buf mt) rc d (isl (fst (processWithRoboflow e buf mt rc d w)))
     (snd (processWithRoboflow e buf mt rc d w))"
  unfolding processWithRoboflow_def Let_def data_url_def
  by (rule call_trace_before[OF logs_only_debugLog call_trace_retry_loop])

lemma fs_free_processWithRoboflow: "fs_free w (snd (processWithRoboflow e buf mt rc d w))"
  unfolding processWithRoboflow_def Let_def
  by (rule fs_free_trans[OF fs_free_logs[OF logs_only_debugLog] fs_free_retry_loop])

lemma failed_rounds_0 [simp]: "failed_rounds s u d a 0 = []"
  by (simp add: failed_rounds_def)

lemma failed_rounds_Suc:
  "failed_rounds s u d a (Suc j) = the_post s u a # SetTimeout (backoff d a) # failed_rounds s u d (Suc a) j"
  unfolding failed_rounds_def upt_shift by simp

lemma posts_failed_rounds: "posts (failed_rounds s u d a j) = map (the_post s u) [a..<a + j]"
proof (induction j arbitrary: a)
  case 0
  show ?case by (simp add: posts_def)
next
  case (Suc j)
  show ?case unfolding failed_rounds_Suc upt_shift using Suc[of "Suc a"]
    by (simp add: posts_def the_post_def del: upt_Suc)
qed

lemma delays_failed_rounds: "scheduled_delays (failed_rounds s u d a j) = map (backoff d) [a..<a + j]"
proof (induction j arbitrary: a)
  case 0
  show ?case by (simp add: scheduled_delays_def)
next
  case (Suc j)
  show ?case unfolding failed_rounds_Suc upt_shift using Suc[of "Suc a"]
    by (simp add: scheduled_delays_def the_post_def del: upt_Suc)
qed

lemma net_debugLog: "filter is_net (effects_since w (debugLog e m w)) = []"
  by (simp add: debugLog_def Let_def effects_since_def perform_def)

lemma net_makeRequest:
  "filter is_net (effects_since w (snd (makeRequest e u a w))) = [the_post (svc w) u a]"
proof -
  let ?w1 = "perform (the_post (svc w) u a) w"
  have A: "\<And>m. effects_since w (debugLog e m ?w1) = the_post (svc w) u a # effects_since ?w1 (debugLog e m ?w1)"
    using since_trans[OF extends_perform extends_debugLog] by (simp add: since_perform)
  show ?thesis
    unfolding makeRequest_def Let_def the_post_def[symmetric]
    by (auto split: sum.split simp: A net_debugLog) (simp_all add: the_post_def)
qed

lemma retry_loop_net:
  "\<exists>j. filter is_net (effects_since w (snd (retry_loop e u rc d a le w)))
        = failed_rounds (svc w) u d a j
          @ (case fst (retry_loop e u rc d a le w) of
               Inl err \<Rightarrow> [] | Inr r \<Rightarrow> [the_post (svc w) u (a + j)])"
proof (induction e u rc d a le w rule: retry_loop.induct)
  case (1 e u rc d a le w)
  show ?case
  proof (cases "int a \<le> rc")
    case False
    then have R: "retry_loop e u rc d a le w = (Inl (all_retries_failed le), w)"
      by (simp add: retry_loop.simps)
    show ?thesis unfolding R by (intro exI[of _ 0]) (simp add: since_refl)
  next
    case True
    obtain x y where M: "makeRequest e u a w = (x, y)" by (cases "makeRequest e u a w")
    have ext_y: "extends w y" using makeRequest_extends[of w e u a] M by simp
    have ny: "filter is_net (effects_since w y) = [the_post (svc w) u a]"
      using net_makeRequest[of w e u a] M by simp
    show ?thesis
    proof (cases x)
      case (Inr r)
      have R: "retry_loop e u rc d a le w = (Inr r, y)"
        using True M Inr by (simp add: retry_loop.simps)
      show ?thesis unfolding R using ny by (intro exI[of _ 0]) simp
    next
      case (Inl err)
      have nb: "\<not> no_retry err" using makeRequest_no_break[of e u a w err] M Inl by simp
      let ?w2 = "perform (SetTimeout (d * 2 ^ (a - 1))) y"
      let ?R = "retry_loop e u rc d (Suc a) (Some err) ?w2"
      have R: "retry_loop e u rc d a le w = ?R"
        using True M Inl nb by (simp add: retry_loop.simps)
      from "1.IH"[OF True M[symmetric] Inl nb]
      obtain j where IH: "filter is_net (effects_since ?w2 (snd ?R))
          = failed_rounds (svc ?w2) u d (Suc a) j
            @ (case fst ?R of Inl err \<Rightarrow> [] | Inr r \<Rightarrow> [the_post (svc ?w2) u (Suc a + j)])"
        by blast
      have ext_w2: "extends w ?w2" by (rule extends_trans[OF ext_y extends_perform])
      have svc2: "svc ?w2 = svc w" using ext_w2 by (simp add: extends_def)
      have extR: "extends ?w2 (snd ?R)" using retry_loop_trace[of ?w2 e u rc d "Suc a" "Some err"] by blast
      have s2: "effects_since w ?w2 = effects_since w y @ [SetTimeout (backoff d a)]"
        using since_trans[OF ext_y extends_perform] by (simp add: since_perform backoff_def)
      have sR: "effects_since w (snd ?R) = effects_since w ?w2 @ effects_since ?w2 (snd ?R)"
        by (rule since_trans[OF ext_w2 extR])
      have "filter is_net (effects_since w (snd ?R))
          = failed_rounds (svc w) u d a (Suc j)
            @ (case fst ?R of Inl err \<Rightarrow> [] | Inr r \<Rightarrow> [the_post (svc w) u (a + Suc j)])"
        unfolding sR s2 failed_rounds_Suc using ny IH[unfolded svc2]
        by (simp split: sum.split)
      then show ?thesis unfolding R by (rule exI[of _ "Suc j"])
    qed
  qed
qed

lemma service_cases:
  obtains
    (ok) resp w1 where
      "processWithRoboflow e (buffer file) (mimetype file) 3 1000 w = (Inr resp, w1)"
      "service_detectDogs e file w =
         (Inr (success_result (fst (extractDogImages e resp w1))),
          debugLog e ''Dog detection results'' (snd (extractDogImages e resp w1)))"
  | (failed) err w1 where
      "processWithRoboflow e (buffer file) (mimetype file) 3 1000 w = (Inl err, w1)"
      "service_detectDogs e file w =
         (Inr (failure_result err), debugLog e ''Error in detectDogs'' w1)"
proof -
  obtain x w1 where P: "processWithRoboflow e (buffer file) (mimetype file) 3 1000 w = (x, w1)"
    by (cases "processWithRoboflow e (buffer file) (mimetype file) 3 1000 w")
  show thesis
  proof (cases x)
    case (Inl err)
    show thesis
      by (rule failed[of err w1])
         (simp_all add: P Inl service_detectDogs_def failure_result_def)
  next
    case (Inr resp)
    show thesis
      by (rule ok[of resp w1])
         (simp_all add: P Inr service_detectDogs_def success_result_def split: prod.split)
  qed
qed

lemma service_total: "\<exists>r. fst (service_detectDogs e file w) = Inr r"
  by (cases rule: service_cases[of e "file" w]) simp_all

lemma call_trace_service:
  "\<exists>r. fst (service_detectDogs e file w) = Inr r
     \<and> call_trace w (data_url (buffer file) (mimetype file)) 3 1000 (\<not> success r)
         (snd (service_detectDogs e file w))"
proof (cases rule: service_cases[of e "file" w])
  case (ok resp w1)
  have C: "call_trace w (data_url (buffer file) (mimetype file)) 3 1000 False w1"
    using call_trace_processWithRoboflow[of w "buffer file" "mimetype file" 3 1000 e] ok(1) by simp
  have "logs_only w1 (debugLog e ''Dog detection results'' (snd (extractDogImages e resp w1)))"
    by (rule logs_only_trans[OF extractDogImages_logs logs_only_debugLog])
  from call_trace_after[OF C this] show ?thesis
    by (simp add: ok(2) success_result_def)
next
  case (failed err w1)
  have C: "call_trace w (data_url (buffer file) (mimetype file)) 3 1000 True w1"
    using call_trace_processWithRoboflow[of w "buffer file" "mimetype file" 3 1000 e] failed(1) by simp
  from call_trace_after[OF C logs_only_debugLog] show ?thesis
    by (simp add: failed(2) failure_result_def)
qed

lemma fs_free_service: "fs_free w (snd (service_detectDogs e file w))"
proof (cases rule: service_cases[of e "file" w])
  case (ok resp w1)
  have F: "fs_free w w1" using fs_free_processWithRoboflow[of w e "buffer file" "mimetype file" 3 1000] ok(1) by simp
  have "logs_only w1 (debugLog e ''Dog detection results'' (snd (extractDogImages e resp w1)))"
    by (rule logs_only_trans[OF extractDogImages_logs logs_only_debugLog])
  from fs_free_trans[OF F fs_free_logs[OF this]] show ?thesis by (simp add: ok(2))
next
  case (failed err w1)
  have F: "fs_free w w1" using fs_free_processWithRoboflow[of w e "buffer file" "mimetype file" 3 1000] failed(1) by simp
  from fs_free_trans[OF F fs_free_logs[OF logs_only_debugLog]] show ?thesis by (simp add: failed(2))
qed

lemma controller_invalid:
  "validate_image img = Inl exn \<Longrightarrow>
     controller_detectDogs e \<lparr>dto_image = JStr img\<rparr> w = (Inl exn, w)"
  by (cases "img = []") (simp_all add: controller_detectDogs_def validate_image_def)

lemma controller_absent:
  "\<not> truthy_value v \<Longrightarrow>
     controller_detectDogs e \<lparr>dto_image = v\<rparr> w
       = (Inl (BadRequestException ''No image data provided''), w)"
  by (simp add: controller_detectDogs_def)

lemma controller_not_string:
  assumes t: "truthy_value v" and n: "\<And>s. v \<noteq> JStr s"
  shows "controller_detectDogs e \<lparr>dto_image = v\<rparr> w
       = (Inl (TypeError ''image.match is not a function''), w)"
proof (cases v)
  case (JStr s)
  with n[of s] show ?thesis by simp
qed (use t in \<open>simp_all add: controller_detectDogs_def\<close>)

lemma controller_valid:
  "validate_image img = Inr groups \<Longrightarrow>
     controller_detectDogs e \<lparr>dto_image = JStr img\<rparr> w
       = (Inr (projr (fst (service_detectDogs e (upload_of groups) w))),
          snd (service_detectDogs e (upload_of groups) w))"
proof -
  assume V: "validate_image img = Inr groups"
  obtain r where R: "fst (service_detectDogs e (upload_of groups) w) = Inr r"
    using service_total by blast
  obtain x w1 where S: "service_detectDogs e (upload_of groups) w = (x, w1)"
    by (cases "service_detectDogs e (upload_of groups) w")
  have "img \<noteq> []" using V by (auto simp: validate_image_def)
  then show ?thesis using V R S
    by (cases groups) (simp add: controller_detectDogs_def upload_of_def)
qed

lemma delays_filter_net: "scheduled_delays (filter is_net xs) = scheduled_delays xs"
proof (induction xs)
  case Nil
  show ?case by simp
next
  case (Cons x xs)
  then show ?case by (cases x) (simp_all add: scheduled_delays_def)
qed

lemma retry_loop_extends: "extends w (snd (retry_loop e u rc d a le w))"
  using retry_loop_trace[of w e u rc d a le] by (elim exE conjE)

lemma net_quiet: "quiet xs \<Longrightarrow> filter is_net xs = []"
proof (induction xs)
  case Nil
  show ?case by simp
next
  case (Cons x xs)
  then show ?case by (cases x) (simp_all add: quiet_def posts_def scheduled_delays_def)
qed

lemma net_retry_after_logs:
  assumes L: "logs_only w w1"
  shows "\<exists>j. filter is_net (effects_since w (snd (retry_loop e u rc d 1 le w1)))
        = failed_rounds (svc w) u d 1 j
          @ (case fst (retry_loop e u rc d 1 le w1) of
               Inl err \<Rightarrow> [] | Inr r \<Rightarrow> [the_post (svc w) u (Suc j)])"
proof -
  let ?R = "retry_loop e u rc d 1 le w1"
  have E0: "extends w w1" and Q: "quiet (effects_since w w1)" using L by (simp_all add: logs_only_def)
  have V: "svc w1 = svc w" using E0 by (simp add: extends_def)
  have S: "effects_since w (snd ?R) = effects_since w w1 @ effects_since w1 (snd ?R)"
    by (rule since_trans[OF E0 retry_loop_extends])
  from retry_loop_net[of w1 e u rc d 1 le]
  show ?thesis
  proof (elim exE)
    fix j
    assume J: "filter is_net (effects_since w1 (snd ?R))
        = failed_rounds (svc w1) u d 1 j
          @ (case fst ?R of Inl err \<Rightarrow> [] | Inr r \<Rightarrow> [the_post (svc w1) u (1 + j)])"
    have "filter is_net (effects_since w (snd ?R))
        = failed_rounds (svc w) u d 1 j
          @ (case fst ?R of Inl err \<Rightarrow> [] | Inr r \<Rightarrow> [the_post (svc w) u (Suc j)])"
      unfolding S using J[unfolded V] by (simp add: net_quiet[OF Q] split: sum.split)
    then show ?thesis by (rule exI)
  qed
qed

lemma net_processWithRoboflow:
  "\<exists>j. filter is_net (effects_since w (snd (processWithRoboflow e buf mt rc d w)))
        = failed_rounds (svc w) (data_url buf mt) d 1 j
          @ (case fst (processWithRoboflow e buf mt rc d w) of
               Inl err \<Rightarrow> [] | Inr r \<Rightarrow> [the_post (svc w) (data_url buf mt) (Suc j)])"
  unfolding processWithRoboflow_def Let_def data_url_def[symmetric]
  by (rule net_retry_after_logs[OF logs_only_debugLog])

subsection \<open>Failing attempts\<close>

lemma makeRequest_failing:
  "failing (vendor e a) \<Longrightarrow> fst (makeRequest e u a w) = Inl (attempt_error (vendor e a))"
  unfolding makeRequest_def Let_def failing_def attempt_error_def axios_post_def
  by (cases "vendor e a") (simp_all add: request_config_def)

lemma makeRequest_Inl_iff:
  "isl (fst (makeRequest e u a w)) = failing (vendor e a)"
  unfolding makeRequest_def Let_def failing_def axios_post_def
  by (cases "vendor e a") (simp_all add: request_config_def)

lemma retry_loop_all_fail:
  "(\<forall>n. a \<le> n \<and> int n \<le> rc \<longrightarrow> failing (vendor e n)) \<Longrightarrow>
     fst (retry_loop e u rc d a le w)
       = Inl (all_retries_failed
               (if int a \<le> rc then Some (attempt_error (vendor e (nat rc))) else le))"
proof (induction e u rc d a le w rule: retry_loop.induct)
  case (1 e u rc d a le w)
  show ?case
  proof (cases "int a \<le> rc")
    case False
    then show ?thesis by (simp add: retry_loop.simps)
  next
    case True
    obtain x y where M: "makeRequest e u a w = (x, y)" by (cases "makeRequest e u a w")
    have fa: "failing (vendor e a)" using "1.prems" True by simp
    have X: "x = Inl (attempt_error (vendor e a))"
      using makeRequest_failing[OF fa, of u w] M by simp
    have nb: "\<not> no_retry (attempt_error (vendor e a))"
      using makeRequest_no_break[of e u a w "attempt_error (vendor e a)"] M X by simp
    let ?w2 = "perform (SetTimeout (d * 2 ^ (a - 1))) y"
    have R: "retry_loop e u rc d a le w
               = retry_loop e u rc d (Suc a) (Some (attempt_error (vendor e a))) ?w2"
      using True M X nb by (simp add: retry_loop.simps)
    have P: "\<forall>n. Suc a \<le> n \<and> int n \<le> rc \<longrightarrow> failing (vendor e n)"
      using "1.prems" by simp
    have IH: "fst (retry_loop e u rc d (Suc a) (Some (attempt_error (vendor e a))) ?w2)
       = Inl (all_retries_failed
               (if int (Suc a) \<le> rc then Some (attempt_error (vendor e (nat rc)))
                else Some (attempt_error (vendor e a))))"
      by (rule "1.IH"[OF True M[symmetric] X nb P])
    show ?thesis
    proof (cases "int (Suc a) \<le> rc")
      case True
      then show ?thesis unfolding R IH by simp
    next
      case False
      with True have "a = nat rc" by simp
      then show ?thesis unfolding R IH using False True by simp
    qed
  qed
qed

lemma processWithRoboflow_all_fail:
  assumes "\<forall>n. 1 \<le> n \<and> int n \<le> rc \<longrightarrow> failing (vendor e n)" and "1 \<le> rc"
  shows "fst (processWithRoboflow e buf mt rc d w)
       = Inl (all_retries_failed (Some (attempt_error (vendor e (nat rc)))))"
  unfolding processWithRoboflow_def Let_def
  using retry_loop_all_fail[of 1 rc e, OF assms(1)] assms(2) by simp

lemma posts_failed_call:
  "isl (fst (processWithRoboflow e buf mt rc d w)) \<Longrightarrow>
     posts (effects_since w (snd (processWithRoboflow e buf mt rc d w)))
       = map (the_post (svc w) (data_url buf mt)) [1..<Suc (nat rc)]"
  using call_trace_processWithRoboflow[of w buf mt rc d e]
  unfolding call_trace_def by (elim exE conjE) simp

lemma post_config_the_post: "post_config (the_post s u n) = request_config"
  by (simp add: the_post_def)

lemma fixed_timeout_the_post: "fixed_timeout (the_post s u n)"
  by (simp add: fixed_timeout_def the_post_def request_config_def)

lemma list_all_fixed_timeout: "list_all fixed_timeout (map (the_post s u) ns)"
  by (induction ns) (simp_all add: fixed_timeout_the_post)

lemma controller_cases:
  obtains
    (rejected) exn where "controller_detectDogs e body w = (Inl exn, w)"
  | (served) img groups where
      "dto_image body = JStr img" "validate_image img = Inr groups"
      "controller_detectDogs e body w
         = (Inr (projr (fst (service_detectDogs e (upload_of groups) w))),
            snd (service_detectDogs e (upload_of groups) w))"
proof (cases "\<exists>img. dto_image body = JStr img")
  case False
  then have N: "\<And>s. dto_image body \<noteq> JStr s" by simp
  have B: "body = \<lparr>dto_image = dto_image body\<rparr>" by (cases body) simp
  show thesis
  proof (cases "truthy_value (dto_image body)")
    case True
    show thesis
      by (rule rejected, subst B) (rule controller_not_string[OF True N])
  next
    case False
    show thesis
      by (rule rejected, subst B) (rule controller_absent[OF False])
  qed
next
  case True
  then obtain img where I: "dto_image body = JStr img" by (elim exE)
  have B: "body = \<lparr>dto_image = JStr img\<rparr>" using I by (cases body) simp
  show thesis
  proof (cases "validate_image img")
    case (Inl exn)
    show thesis by (rule rejected[of exn]) (simp add: B controller_invalid[OF Inl])
  next
    case (Inr groups)
    show thesis by (rule served[OF I Inr]) (simp add: B controller_valid[OF Inr])
  qed
qed

lemma call_trace_controller:
  "posts (effects_since w (snd (controller_detectDogs e body w))) = []
   \<or> (\<exists>img groups. dto_image body = JStr img \<and> validate_image img = Inr groups
        \<and> call_trace w (data_url (b64_decode (snd groups)) (''image/'' @ fst groups)) 3 1000
             (\<not> success (projr (fst (controller_detectDogs e body w))))
             (snd (controller_detectDogs e body w)))"
proof (cases rule: controller_cases[of e body w])
  case (rejected exn)
  then show ?thesis by (simp add: since_refl posts_def)
next
  case (served img groups)
  from call_trace_service[of e "upload_of groups" w]
  have "call_trace w (data_url (b64_decode (snd groups)) (''image/'' @ fst groups)) 3 1000
             (\<not> success (projr (fst (controller_detectDogs e body w))))
             (snd (controller_detectDogs e body w))"
    unfolding served(3) by (elim exE conjE) (simp add: upload_of_def)
  then show ?thesis using served(1,2) by (intro disjI2 exI conjI)
qed

subsection \<open>Independence from earlier effects\<close>

lemma lift_history_pair [simp]: "lift_history h (r, w) = (r, with_history h w)"
  by (simp add: lift_history_def)

lemma svc_with_history [simp]: "svc (with_history h w) = svc w"
  by (simp add: with_history_def)

lemma perform_history: "perform x (with_history h w) = with_history h (perform x w)"
  by (simp add: perform_def with_history_def)

lemma debugLog_history: "debugLog e m (with_history h w) = with_history h (debugLog e m w)"
  by (simp add: debugLog_def Let_def perform_history)

lemma makeRequest_history:
  "makeRequest e u a (with_history h w) = lift_history h (makeRequest e u a w)"
  unfolding makeRequest_def Let_def
  by (simp add: perform_history debugLog_history split: sum.split)

lemma retry_loop_history:
  "retry_loop e u rc d a le (with_history h w) = lift_history h (retry_loop e u rc d a le w)"
proof (induction e u rc d a le w rule: retry_loop.induct)
  case (1 e u rc d a le w)
  obtain x y where M: "makeRequest e u a w = (x, y)" by (cases "makeRequest e u a w")
  have M': "makeRequest e u a (with_history h w) = (x, with_history h y)"
    by (simp add: makeRequest_history M)
  show ?case
  proof (cases "int a \<le> rc")
    case False
    then show ?thesis by (simp add: retry_loop.simps)
  next
    case True
    show ?thesis
    proof (cases x)
      case (Inr r)
      show ?thesis
        by (simp add: retry_loop.simps[of e u rc d a le] True M M' Inr)
    next
      case (Inl err)
      show ?thesis
      proof (cases "no_retry err")
        case True
        with \<open>int a \<le> rc\<close> show ?thesis
          by (simp add: retry_loop.simps[of e u rc d a le] M M' Inl)
      next
        case False
        from "1.IH"[OF True M[symmetric] Inl False] True False
        show ?thesis
          by (simp add: retry_loop.simps[of e u rc d a le] M M' Inl perform_history)
      qed
    qed
  qed
qed

lemma processWithRoboflow_history:
  "processWithRoboflow e buf mt rc d (with_history h w)
     = lift_history h (processWithRoboflow e buf mt rc d w)"
  by (simp add: processWithRoboflow_def Let_def debugLog_history retry_loop_history)

lemma process_crops_history:
  "process_crops e ts cs (dogs, with_history h w) = lift_history h (process_crops e ts cs (dogs, w))"
proof (induction cs arbitrary: dogs w)
  case Nil
  show ?case by simp
next
  case (Cons c cs)
  show ?case by (cases c) (simp_all add: Cons.IH debugLog_history)
qed

lemma process_outputs_history:
  "process_outputs e ts outs (dogs, with_history h w)
     = lift_history h (process_outputs e ts outs (dogs, w))"
proof (induction outs arbitrary: dogs w)
  case Nil
  show ?case by simp
next
  case (Cons out outs)
  show ?case
  proof (cases out)
    case OutputNull
    then show ?thesis by simp
  next
    case (Output dc)
    show ?thesis
    proof (cases dc)
      case None
      then show ?thesis using Output by (simp add: Cons.IH)
    next
      case (Some cs)
      obtain dogs1 w1 where P: "process_crops e ts cs (dogs, w) = (dogs1, w1)"
        by (cases "process_crops e ts cs (dogs, w)")
      show ?thesis using Output Some
        by (simp add: process_crops_history P Cons.IH)
    qed
  qed
qed

lemma extract_body_history:
  "extract_body e r (with_history h w) = lift_history h (extract_body e r w)"
proof (cases r)
  case None
  then show ?thesis by (simp add: extract_body_def)
next
  case (Some resp)
  obtain x w1 where X: "(case outputs resp of None \<Rightarrow> (Inr [], w)
            | Some outs \<Rightarrow> process_outputs e (iso_now e) outs ([], w)) = (x, w1)"
    by (cases "(case outputs resp of None \<Rightarrow> (Inr [], w)
            | Some outs \<Rightarrow> process_outputs e (iso_now e) outs ([], w))")
  have X': "(case outputs resp of None \<Rightarrow> (Inr [], with_history h w)
            | Some outs \<Rightarrow> process_outputs e (iso_now e) outs ([], with_history h w))
             = (x, with_history h w1)"
    using X by (cases "outputs resp") (simp_all add: process_outputs_history)
  show ?thesis
    unfolding extract_body_def Let_def Some option.case X X'
    by (simp add: debugLog_history split: sum.split option.split)
qed

lemma extractDogImages_history:
  "extractDogImages e r (with_history h w) = lift_history h (extractDogImages e r w)"
proof -
  let ?w0 = "debugLog e ''Roboflow API Response'' w"
  obtain x w1 where X: "extract_body e r ?w0 = (x, w1)"
    by (cases "extract_body e r ?w0")
  have X': "extract_body e r (with_history h ?w0) = (x, with_history h w1)"
    by (simp add: extract_body_history X)
  show ?thesis
    unfolding extractDogImages_def debugLog_history X X'
    by (simp add: debugLog_history split: sum.split)
qed

lemma service_history:
  "service_detectDogs e up (with_history h w) = lift_history h (service_detectDogs e up w)"
proof -
  obtain x w1 where P: "processWithRoboflow e (buffer up) (mimetype up) 3 1000 w = (x, w1)"
    by (cases "processWithRoboflow e (buffer up) (mimetype up) 3 1000 w")
  have P': "processWithRoboflow e (buffer up) (mimetype up) 3 1000 (with_history h w)
              = (x, with_history h w1)"
    by (simp add: processWithRoboflow_history P)
  show ?thesis
  proof (cases x)
    case (Inl err)
    show ?thesis by (simp add: service_detectDogs_def P P' Inl debugLog_history)
  next
    case (Inr resp)
    obtain dogs w2 where E: "extractDogImages e resp w1 = (dogs, w2)"
      by (cases "extractDogImages e resp w1")
    show ?thesis
      by (simp add: service_detectDogs_def P P' Inr extractDogImages_history E debugLog_history)
  qed
qed

lemma controller_history:
  "controller_detectDogs e body (with_history h w) = lift_history h (controller_detectDogs e body w)"
proof -
  have S: "\<And>up. service_detectDogs e up (with_history h w)
              = (fst (service_detectDogs e up w), with_history h (snd (service_detectDogs e up w)))"
    by (simp add: service_history lift_history_def)
  show ?thesis
    unfolding controller_detectDogs_def Let_def S
    by (simp add: perform_history split: js_value.split sum.split prod.split)
qed

lemma fs_free_controller: "fs_free w (snd (controller_detectDogs e body w))"
proof (cases rule: controller_cases[of e body w])
  case (rejected exn)
  then show ?thesis by (simp add: fs_free_logs logs_only_refl)
next
  case (served img groups)
  show ?thesis unfolding served(3) using fs_free_service[of w e "upload_of groups"] by simp
qed

lemma validate_example_image: "validate_image example_image = Inr (''png'', ''QUJD'')"
  by (simp add: validate_image_def example_image_def match_base64Regex_def is_letter_def
      lower_chars_def upper_chars_def)

lemma b64_decode_QUJD: "b64_decode ''QUJD'' = [0x41, 0x42, 0x43]"
  by (simp add: b64_decode_def List.map_filter_def unbase64_def b64_chars_def)

lemma b64_encode_ABC: "b64_encode [0x41, 0x42, 0x43] = ''QUJD''"
  by (simp add: b64_char_def b64_chars_def)

subsection \<open>Base64: decoding an encoded buffer\<close>

lemma index_of_nth:
  "distinct xs \<Longrightarrow> n < length xs \<Longrightarrow> index_of (xs ! n) xs = Some n"
proof (induction xs arbitrary: n)
  case Nil
  then show ?case by simp
next
  case (Cons x xs)
  show ?case
  proof (cases n)
    case 0
    then show ?thesis by simp
  next
    case (Suc m)
    with Cons.prems have "m < length xs" "distinct xs" "xs ! m \<noteq> x"
      by (auto simp: nth_mem)
    with Cons.IH[of m] Suc show ?thesis by simp
  qed
qed

lemma distinct_b64_chars: "distinct b64_chars"
  by (simp add: b64_chars_def)

lemma length_b64_chars: "length b64_chars = 64"
  by (simp add: b64_chars_def)

lemma b64_chars_plain:
  "CHR ''='' \<notin> set b64_chars" "CHR ''-'' \<notin> set b64_chars" "CHR ''_'' \<notin> set b64_chars"
  "CHR 0x22 \<notin> set b64_chars"
  by (simp_all add: b64_chars_def)

lemma b64_char_in: "n < 64 \<Longrightarrow> b64_char n \<in> set b64_chars"
  by (simp add: b64_char_def length_b64_chars)

lemma b64_char_not_pad: "n < 64 \<Longrightarrow> b64_char n \<noteq> CHR ''=''"
  using b64_char_in[of n] b64_chars_plain(1) by metis

lemma unbase64_b64_char: "n < 64 \<Longrightarrow> unbase64 (b64_char n) = Some n"
proof -
  assume n: "n < 64"
  have "b64_char n \<noteq> CHR ''-''" "b64_char n \<noteq> CHR ''_''"
    using b64_char_in[OF n] b64_chars_plain(2,3) by metis+
  then show ?thesis
    unfolding unbase64_def b64_char_def[symmetric]
    using index_of_nth[OF distinct_b64_chars, of n] n
    by (simp add: b64_char_def length_b64_chars)
qed

lemma join_sextets:
  "((n div 262144 * 64 + n div 4096 mod 64) * 64 + n div 64 mod 64) * 64 + n mod 64 = (n::nat)"
proof -
  have a: "n div 262144 = n div 4096 div 64" by (simp add: div_mult2_eq[symmetric])
  have b: "n div 4096 = n div 64 div 64" by (simp add: div_mult2_eq[symmetric])
  have e1: "n div 262144 * 64 + n div 4096 mod 64 = n div 4096"
    unfolding a by (rule div_mult_mod_eq)
  have e2: "n div 4096 * 64 + n div 64 mod 64 = n div 64"
    unfolding b by (rule div_mult_mod_eq)
  have e3: "n div 64 * 64 + n mod 64 = n" by (rule div_mult_mod_eq)
  show ?thesis unfolding e1 e2 e3 ..
qed

lemma split_bytes:
  fixes a b c :: nat
  assumes "a < 256" "b < 256" "c < 256"
  shows "(a * 65536 + b * 256 + c) div 65536 = a"
    and "(a * 65536 + b * 256 + c) div 256 mod 256 = b"
    and "(a * 65536 + b * 256 + c) mod 256 = c"
proof -
  have r: "b * 256 + c < 65536" using assms by linarith
  have "(b * 256 + c + a * 65536) div 65536 = a"
    using r by simp
  then show "(a * 65536 + b * 256 + c) div 65536 = a" by (simp add: ac_simps)
  have d: "(c + (a * 256 + b) * 256) div 256 = a * 256 + b"
    using assms(3) by simp
  have "a * 65536 + b * 256 + c = c + (a * 256 + b) * 256" by simp
  then have d': "(a * 65536 + b * 256 + c) div 256 = a * 256 + b" using d by simp
  show "(a * 65536 + b * 256 + c) div 256 mod 256 = b"
    unfolding d' using assms(2) by simp
  have "(c + (a * 256 + b) * 256) mod 256 = c mod 256" by (rule mod_mult_self1)
  then have "(c + (a * 256 + b) * 256) mod 256 = c" using assms(3) by (simp only: mod_less)
  moreover have "a * 65536 + b * 256 + c = c + (a * 256 + b) * 256" by simp
  ultimately show "(a * 65536 + b * 256 + c) mod 256 = c" by (simp add: ac_simps)
qed

lemma unat_byte_less: "unat (a::byte) < 256"
  using unsigned_less[of a, where ?'a = nat] by simp

lemma decode_group:
  assumes "s0 < 64" "s1 < 64" "s2 < 64" "s3 < 64"
  shows "b64_decode (b64_char s0 # b64_char s1 # b64_char s2 # b64_char s3 # rest)
           = decode_sextets [s0, s1, s2, s3] @ b64_decode rest"
  unfolding b64_decode_def
  using assms by (simp add: b64_char_not_pad unbase64_b64_char)

lemma decode_three:
  assumes "s0 < 64" "s1 < 64" "s2 < 64"
  shows "b64_decode [b64_char s0, b64_char s1, b64_char s2, CHR ''='']
           = decode_sextets [s0, s1, s2]"
  unfolding b64_decode_def
  using assms by (simp add: b64_char_not_pad unbase64_b64_char)

lemma decode_two:
  assumes "s0 < 64" "s1 < 64"
  shows "b64_decode [b64_char s0, b64_char s1, CHR ''='', CHR ''='']
           = decode_sextets [s0, s1]"
  unfolding b64_decode_def
  using assms by (simp add: b64_char_not_pad unbase64_b64_char)

lemma sextet_bounds:
  fixes n :: nat
  assumes "n < 16777216"
  shows "n div 262144 < 64" "n div 4096 mod 64 < 64" "n div 64 mod 64 < 64" "n mod 64 < 64"
  using assms by (simp_all add: less_mult_imp_div_less)

lemma three_bytes_bound:
  fixes a b c :: nat
  assumes "a < 256" "b < 256" "c < 256"
  shows "a * 65536 + b * 256 + c < 16777216"
  using assms by linarith

lemma b64_roundtrip: "b64_decode (b64_encode bs) = bs"
proof (induction bs rule: b64_encode.induct)
  case (1 a b c rest)
  let ?n = "unat a * 65536 + unat b * 256 + unat c"
  have n: "?n < 16777216"
    by (rule three_bytes_bound[OF unat_byte_less unat_byte_less unat_byte_less])
  have bytes: "?n div 65536 = unat a" "?n div 256 mod 256 = unat b" "?n mod 256 = unat c"
    by (rule split_bytes[OF unat_byte_less unat_byte_less unat_byte_less])+
  have "decode_sextets [?n div 262144, ?n div 4096 mod 64, ?n div 64 mod 64, ?n mod 64]
          = [a, b, c]"
    by (simp only: decode_sextets.simps Let_def join_sextets bytes of_nat_unat unsigned_eq_0_iff
        append_Nil2) simp
  then show ?case
    using decode_group[OF sextet_bounds[OF n], of "b64_encode rest"] "1.IH"
    by (simp add: Let_def)
next
  case (2 a b)
  let ?n = "unat a * 65536 + unat b * 256 + 0"
  have n: "?n < 16777216"
    by (rule three_bytes_bound[OF unat_byte_less unat_byte_less]) simp
  have bytes: "?n div 65536 = unat a" "?n div 256 mod 256 = unat b" "?n mod 256 = 0"
    by (rule split_bytes[OF unat_byte_less unat_byte_less], simp)+
  have z: "?n mod 64 = 0"
  proof -
    have "?n = (unat a * 1024 + unat b * 4) * 64" by simp
    then show ?thesis by (simp only: mod_mult_self2_is_0)
  qed
  have j: "((?n div 262144 * 64 + ?n div 4096 mod 64) * 64 + ?n div 64 mod 64) * 64 = ?n"
    using join_sextets[of ?n] unfolding z by simp
  have "decode_sextets [?n div 262144, ?n div 4096 mod 64, ?n div 64 mod 64] = [a, b]"
    by (simp only: decode_sextets.simps Let_def j bytes of_nat_unat) simp
  then show ?case
    using decode_three[OF sextet_bounds(1,2,3)[OF n]]
    by (simp add: Let_def)
next
  case (3 a)
  let ?n = "unat a * 65536 + 0 * 256 + 0"
  have n: "?n < 16777216"
    by (rule three_bytes_bound[OF unat_byte_less]) simp_all
  have bytes: "?n div 65536 = unat a"
    by (rule split_bytes[OF unat_byte_less]) simp_all
  have j: "(?n div 262144 * 64 + ?n div 4096 mod 64) * 4096 = ?n"
  proof -
    have a: "?n div 262144 = ?n div 4096 div 64" by (simp add: div_mult2_eq[symmetric])
    have e1: "?n div 262144 * 64 + ?n div 4096 mod 64 = ?n div 4096"
      unfolding a by (rule div_mult_mod_eq)
    have "?n = unat a * 16 * 4096" by simp
    then have "?n div 4096 * 4096 = ?n" by (simp only: nonzero_mult_div_cancel_right)
    then show ?thesis unfolding e1 .
  qed
  have "decode_sextets [?n div 262144, ?n div 4096 mod 64] = [a]"
    by (simp only: decode_sextets.simps Let_def j bytes of_nat_unat) simp
  then show ?case
    using decode_two[OF sextet_bounds(1,2)[OF n]]
    by (simp add: Let_def)
next
  case 4
  show ?case by (simp add: b64_decode_def List.map_filter_simps)
qed

subsection \<open>The matcher and the language of the regular expression\<close>

lemma strip_prefix_iff: "strip_prefix p s = Some r \<longleftrightarrow> s = p @ r"
proof (induction p s rule: strip_prefix.induct)
  case (1 s)
  show ?case by auto
next
  case (2 p ps)
  show ?case by simp
next
  case (3 p ps c cs)
  then show ?case by auto
qed

lemma semicolon_not_letter: "\<not> is_letter CHR '';''"
  by (simp add: is_letter_def lower_chars_def upper_chars_def)

lemma match_base64Regex_iff:
  "match_base64Regex s = Some (mt, d) \<longleftrightarrow>
     s = ''data:image/'' @ mt @ '';base64,'' @ d \<and> list_all is_letter mt \<and> CHR 0x22 \<notin> set d"
proof
  assume M: "match_base64Regex s = Some (mt, d)"
  then obtain r where r: "strip_prefix ''data:image/'' s = Some r"
    unfolding match_base64Regex_def by (cases "strip_prefix ''data:image/'' s") simp_all
  from M r obtain d' where d': "strip_prefix '';base64,'' (dropWhile is_letter r) = Some d'"
    unfolding match_base64Regex_def
    by (cases "strip_prefix '';base64,'' (dropWhile is_letter r)") simp_all
  from M r d' have res: "CHR 0x22 \<notin> set d'" "mt = takeWhile is_letter r" "d = d'"
    unfolding match_base64Regex_def by (simp_all split: if_splits)
  have s: "s = ''data:image/'' @ r" using r by (simp only: strip_prefix_iff)
  have dr: "dropWhile is_letter r = '';base64,'' @ d" using d' res(3) by (simp only: strip_prefix_iff)
  have "r = takeWhile is_letter r @ dropWhile is_letter r" by simp
  then have "r = mt @ '';base64,'' @ d" unfolding dr res(2) .
  moreover have "list_all is_letter mt"
    unfolding res(2) list_all_iff using set_takeWhileD by fastforce
  ultimately show "s = ''data:image/'' @ mt @ '';base64,'' @ d \<and> list_all is_letter mt
      \<and> CHR 0x22 \<notin> set d"
    using s res by simp
next
  assume A: "s = ''data:image/'' @ mt @ '';base64,'' @ d \<and> list_all is_letter mt
      \<and> CHR 0x22 \<notin> set d"
  then have s: "s = ''data:image/'' @ (mt @ '';base64,'' @ d)" and L: "list_all is_letter mt"
    and Q: "CHR 0x22 \<notin> set d" by simp_all
  have r: "strip_prefix ''data:image/'' s = Some (mt @ '';base64,'' @ d)"
    using s by (simp only: strip_prefix_iff)
  have L': "\<forall>x\<in>set mt. is_letter x" using L by (simp add: list_all_iff)
  have e: "mt @ '';base64,'' @ d = mt @ CHR '';'' # (''base64,'' @ d)" by simp
  have t: "takeWhile is_letter (mt @ '';base64,'' @ d) = mt"
    unfolding e using L' semicolon_not_letter by (simp add: takeWhile_tail)
  have dw: "dropWhile is_letter (mt @ '';base64,'' @ d) = '';base64,'' @ d"
    unfolding e using L' semicolon_not_letter by (simp add: dropWhile_append3)
  have d: "strip_prefix '';base64,'' ('';base64,'' @ d) = Some d"
    by (simp only: strip_prefix_iff)
  show "match_base64Regex s = Some (mt, d)"
    using r dw d t Q by (simp add: match_base64Regex_def)
qed

lemma match_base64Regex_None_iff:
  "match_base64Regex s = None \<longleftrightarrow> \<not> matches_data_url s"
proof -
  have "matches_data_url s \<longleftrightarrow> (\<exists>mt d. match_base64Regex s = Some (mt, d))"
    unfolding matches_data_url_def match_base64Regex_iff ..
  then show ?thesis by (cases "match_base64Regex s") auto
qed

lemma validate_image_iff:
  "(\<exists>exn. validate_image img = Inl exn) \<longleftrightarrow> img = [] \<or> \<not> matches_data_url img"
  unfolding validate_image_def match_base64Regex_None_iff[symmetric]
  by (cases "match_base64Regex img") simp_all

lemma validate_image_Inr_iff:
  "validate_image img = Inr (mt, d) \<longleftrightarrow>
     img = ''data:image/'' @ mt @ '';base64,'' @ d \<and> list_all is_letter mt \<and> CHR 0x22 \<notin> set d"
proof -
  have "validate_image img = Inr (mt, d) \<longleftrightarrow> img \<noteq> [] \<and> match_base64Regex img = Some (mt, d)"
    unfolding validate_image_def by (cases "match_base64Regex img") auto
  also have "\<dots> \<longleftrightarrow> match_base64Regex img = Some (mt, d)"
    unfolding match_base64Regex_iff by auto
  finally show ?thesis unfolding match_base64Regex_iff .
qed

subsection \<open>Runs on the concrete inputs\<close>

lemma show_nat_now: "show_nat 1700000000000 = ''1700000000000''"
  by (simp add: show_nat.simps digit_chars_def)

lemma show_nat_0: "show_nat 0 = ''0''"
  by (simp add: show_nat.simps digit_chars_def)

lemma extract_example:
  "\<not> debug (svc w) \<Longrightarrow>
     extractDogImages steady_env (Some example_response) w = ([example_dog], w)"
  by (simp add: extractDogImages_def extract_body_def example_response_def
      example_prediction_def steady_env_def debugLog_def toLowerCase_def lower_char_def upper_chars_def
      lower_chars_def detection_imageData_def truthy_def detection_dog_def num_or_def
      example_dog_def show_nat_now show_nat_0 Let_def)

lemma steady_run:
  "controller_detectDogs steady_env \<lparr>dto_image = JStr ''data:image/png;base64,QQ''\<rparr> example_world
     = (Inr (success_result [example_dog]),
        \<lparr>svc = example_service,
         effects = [the_post example_service ''data:image/png;base64,QQ=='' 1]\<rparr>)"
proof -
  have V: "validate_image ''data:image/png;base64,QQ'' = Inr (''png'', ''QQ'')"
    by (simp add: validate_image_def match_base64Regex_def is_letter_def
        lower_chars_def upper_chars_def)
  have D: "b64_decode ''QQ'' = [0x41]"
    by (simp add: b64_decode_def List.map_filter_def unbase64_def b64_chars_def)
  have P: "processWithRoboflow steady_env [0x41] ''image/png'' 3 1000 example_world
    = (Inr (Some example_response),
       \<lparr>svc = example_service,
        effects = [the_post example_service ''data:image/png;base64,QQ=='' 1]\<rparr>)"
    by (simp add: processWithRoboflow_def retry_loop.simps makeRequest_def axios_post_def
      debugLog_def example_world_def example_service_def steady_env_def perform_def
      request_config_def no_retry_def the_post_def b64_char_def b64_chars_def Let_def)
  have E: "extractDogImages steady_env (Some example_response)
        \<lparr>svc = example_service,
         effects = [the_post example_service ''data:image/png;base64,QQ=='' 1]\<rparr>
       = ([example_dog], \<lparr>svc = example_service,
         effects = [the_post example_service ''data:image/png;base64,QQ=='' 1]\<rparr>)"
    by (rule extract_example) (simp add: example_service_def)
  have Q: "debug example_service = False" by (simp add: example_service_def)
  show ?thesis
    unfolding controller_valid[OF V] upload_of_def
    using E by (simp add: D service_detectDogs_def P success_result_def debugLog_off Q)
qed

lemma b64_encode_chars: "set (b64_encode bs) \<subseteq> insert CHR ''='' (set b64_chars)"
proof (induction bs rule: b64_encode.induct)
  case (1 a b c rest)
  let ?n = "unat a * 65536 + unat b * 256 + unat c"
  have n: "?n < 16777216"
    by (rule three_bytes_bound[OF unat_byte_less unat_byte_less unat_byte_less])
  show ?case
    using "1.IH" b64_char_in[OF sextet_bounds(1)[OF n]] b64_char_in[OF sextet_bounds(2)[OF n]]
      b64_char_in[OF sextet_bounds(3)[OF n]] b64_char_in[OF sextet_bounds(4)[OF n]]
    by (simp add: Let_def)
next
  case (2 a b)
  let ?n = "unat a * 65536 + unat b * 256 + 0"
  have n: "?n < 16777216"
    by (rule three_bytes_bound[OF unat_byte_less unat_byte_less]) simp
  show ?case
    using b64_char_in[OF sextet_bounds(1)[OF n]] b64_char_in[OF sextet_bounds(2)[OF n]]
      b64_char_in[OF sextet_bounds(3)[OF n]]
    by (simp add: Let_def)
next
  case (3 a)
  let ?n = "unat a * 65536 + 0 * 256 + 0"
  have n: "?n < 16777216"
    by (rule three_bytes_bound[OF unat_byte_less]) simp_all
  show ?case
    using b64_char_in[OF sextet_bounds(1)[OF n]] b64_char_in[OF sextet_bounds(2)[OF n]]
    by (simp add: Let_def)
next
  case 4
  show ?case by simp
qed

lemma b64_encode_no_quote: "CHR 0x22 \<notin> set (b64_encode bs)"
proof
  assume "CHR 0x22 \<in> set (b64_encode bs)"
  then have "CHR 0x22 \<in> insert CHR ''='' (set b64_chars)"
    using b64_encode_chars[of bs] by (rule set_mp[rotated])
  then show False using b64_chars_plain(4) by simp
qed

lemma controller_posts:
  assumes V: "validate_image img = Inr (mt, payload)"
  shows "\<exists>k. 0 < k \<and> k \<le> 3
     \<and> posts (effects_since w (snd (controller_detectDogs e \<lparr>dto_image = JStr img\<rparr> w)))
         = map (the_post (svc w)
                 (''data:image/'' @ mt @ '';base64,'' @ b64_encode (b64_decode payload)))
             [1..<1 + k]"
proof -
  let ?up = "upload_of (mt, payload)"
  have U: "data_url (buffer ?up) (mimetype ?up)
             = ''data:image/'' @ mt @ '';base64,'' @ b64_encode (b64_decode payload)"
    by (simp add: data_url_def upload_of_def)
  have C: "snd (controller_detectDogs e \<lparr>dto_image = JStr img\<rparr> w)
             = snd (service_detectDogs e ?up w)"
    by (simp add: controller_valid[OF V])
  have S: "\<exists>k. 0 < k \<and> k \<le> 3
     \<and> posts (effects_since w (snd (service_detectDogs e ?up w)))
         = map (the_post (svc w)
                 (''data:image/'' @ mt @ '';base64,'' @ b64_encode (b64_decode payload)))
             [1..<1 + k]"
    using call_trace_service[of e ?up w] unfolding call_trace_def U
  proof (elim exE conjE)
    fix r k
    assume P: "posts (effects_since w (snd (service_detectDogs e ?up w)))
        = map (the_post (svc w)
                 (''data:image/'' @ mt @ '';base64,'' @ b64_encode (b64_decode payload)))
            [1..<1 + k]"
      and K: "if \<not> success r
        then k = nat 3 \<and> scheduled_delays (effects_since w (snd (service_detectDogs e ?up w)))
               = map (backoff 1000) [1..<1 + k]
        else 0 < k \<and> int k \<le> 3
          \<and> scheduled_delays (effects_since w (snd (service_detectDogs e ?up w)))
               = map (backoff 1000) [1..<k]"
    have k: "0 < k" "k \<le> 3" using K by (cases "success r", simp_all)+
    show ?thesis by (rule exI[of _ k]) (intro conjI k P)
  qed
  then show ?thesis unfolding C .
qed

lemma list_all_post_image: "list_all (\<lambda>p. post_image p = u) (map (the_post s u) ns)"
  by (induction ns) (simp_all add: the_post_def)

lemma str_or_None: "str_or None d = d"
  by (simp add: str_or_def)

subsection \<open>The dogs the extraction returns\<close>

lemma process_crops_dogs:
  "fst (process_crops e (iso_now e) cs (dogs, w))
     = dogs @ map (dog_of_crop e) (enumerate (length dogs) (filter is_base64_crop cs))"
proof (induction cs arbitrary: dogs w)
  case Nil
  show ?case by simp
next
  case (Cons c cs)
  show ?case
  proof (cases c)
    case CropNull
    then show ?thesis by (simp add: Cons.IH)
  next
    case (Crop ty v ft)
    then show ?thesis by (simp add: Cons.IH dog_of_crop_def)
  qed
qed

lemma process_outputs_dogs:
  "fst (process_outputs e (iso_now e) outs (dogs, w))
     = (if OutputNull \<in> set outs
        then Inl \<lparr>message = ''Cannot read properties of null'', response = None\<rparr>
        else Inr (dogs @ map (dog_of_crop e)
                    (enumerate (length dogs) (concat (map output_crops outs)))))"
proof (induction outs arbitrary: dogs w)
  case Nil
  show ?case by simp
next
  case (Cons out outs)
  show ?case
  proof (cases out)
    case OutputNull
    then show ?thesis by simp
  next
    case (Output dc)
    show ?thesis
    proof (cases dc)
      case None
      then show ?thesis using Output by (simp add: Cons.IH)
    next
      case (Some cs)
      obtain dogs1 w1 where P: "process_crops e (iso_now e) cs (dogs, w) = (dogs1, w1)"
        by (cases "process_crops e (iso_now e) cs (dogs, w)")
      have D: "dogs1 = dogs @ map (dog_of_crop e)
                 (enumerate (length dogs) (filter is_base64_crop cs))"
        using process_crops_dogs[of e cs dogs w] P by simp
      show ?thesis using Output Some
        by (simp add: P Cons.IH D enumerate_append_eq)
    qed
  qed
qed

lemma process_detections_dogs:
  "process_detections e (iso_now e) ps dogs
     = dogs @ map (dog_of_prediction e)
         (enumerate (length dogs) (filter (\<lambda>p. truthy (detection_imageData p)) ps))"
proof (induction ps arbitrary: dogs)
  case Nil
  show ?case by simp
next
  case (Cons p ps)
  show ?case by (simp add: Cons.IH dog_of_prediction_def)
qed

lemma lower_dog_nonempty: "toLowerCase s = ''dog'' \<Longrightarrow> s \<noteq> []"
  by (auto simp: toLowerCase_def)

lemma is_dog_detection_untestable: "untestable x \<Longrightarrow> isl (is_dog_detection x)"
proof (cases x)
  case PredictionNull
  then show ?thesis by simp
next
  case (Prediction p)
  assume "untestable x"
  then show ?thesis using Prediction by (cases "pred_class p") simp_all
qed

lemma is_dog_detection_testable:
  assumes "\<not> untestable (Prediction p)"
  shows "is_dog_detection (Prediction p)
           = Inr (class_is_dog (pred_class p) \<and> pred_confidence p > 0.5)"
proof (cases "pred_class p")
  case (JStr s)
  show ?thesis
  proof (cases "s = []")
    case True
    then show ?thesis using JStr by (simp add: toLowerCase_def)
  next
    case False
    then show ?thesis using JStr by simp
  qed
qed (use assms in simp_all)

lemma filter_dog_detections_throws:
  "list_ex untestable ps \<Longrightarrow> isl (filter_dog_detections ps)"
proof (induction ps)
  case Nil
  then show ?case by simp
next
  case (Cons x xs)
  show ?case
  proof (cases "untestable x")
    case True
    from is_dog_detection_untestable[OF this] obtain err where "is_dog_detection x = Inl err"
      by (cases "is_dog_detection x") simp_all
    then show ?thesis by simp
  next
    case False
    with Cons.prems have "list_ex untestable xs" by simp
    from Cons.IH[OF this] obtain err where "filter_dog_detections xs = Inl err"
      by (cases "filter_dog_detections xs") simp_all
    then show ?thesis by (simp split: sum.split)
  qed
qed

lemma filter_dog_detections_keeps:
  "\<not> list_ex untestable ps \<Longrightarrow>
     filter_dog_detections ps
       = Inr (filter (\<lambda>p. class_is_dog (pred_class p) \<and> pred_confidence p > 0.5)
                (prediction_objects ps))"
proof (induction ps)
  case Nil
  show ?case by simp
next
  case (Cons x xs)
  from Cons.prems have T: "\<not> untestable x" and R: "\<not> list_ex untestable xs" by simp_all
  show ?case
  proof (cases x)
    case PredictionNull
    with T show ?thesis by simp
  next
    case (Prediction p)
    have "is_dog_detection (Prediction p)
           = Inr (class_is_dog (pred_class p) \<and> pred_confidence p > 0.5)"
      using T Prediction by (intro is_dog_detection_testable) simp
    then show ?thesis using Prediction Cons.IH[OF R] by simp
  qed
qed

lemma fallback_filter:
  assumes "predictions r = Some ps"
  shows "filter (\<lambda>p. truthy (detection_imageData p))
       (filter (\<lambda>p. class_is_dog (pred_class p) \<and> pred_confidence p > 0.5)
          (prediction_objects ps))
     = fallback_predictions r"
proof -
  have "\<And>p. ((class_is_dog (pred_class p) \<and> pred_confidence p > 0.5)
               \<and> truthy (detection_imageData p))
      = (class_is_dog (pred_class p) \<and> pred_confidence p > 0.5
                      \<and> truthy (detection_imageData p))"
    by blast
  then show ?thesis using assms by (simp add: fallback_predictions_def conj_commute)
qed

lemma extract_after_outputs:
  assumes X: "(case outputs r of None \<Rightarrow> (Inr [], w0)
            | Some outs \<Rightarrow> process_outputs e (iso_now e) outs ([], w0)) = (x, w1)"
  shows "x = (if has_null_output r
              then Inl \<lparr>message = ''Cannot read properties of null'', response = None\<rparr>
              else Inr (map (dog_of_crop e) (enumerate 0 (crops_of_response r))))"
proof (cases "outputs r")
  case None
  then show ?thesis using X by (simp add: has_null_output_def crops_of_response_def)
next
  case (Some outs)
  have "x = fst (process_outputs e (iso_now e) outs ([], w0))" using X Some by simp
  then show ?thesis
    unfolding process_outputs_dogs
    by (simp add: has_null_output_def crops_of_response_def Some)
qed

lemma extract_body_dogs:
  "(extraction_failed r \<longrightarrow> isl (fst (extract_body e (Some r) w0)))
   \<and> (\<not> extraction_failed r \<longrightarrow>
        fst (extract_body e (Some r) w0)
          = Inr (if crops_of_response r \<noteq> []
                 then map (dog_of_crop e) (enumerate 0 (crops_of_response r))
                 else map (dog_of_prediction e) (enumerate 0 (fallback_predictions r))))"
proof -
  obtain x w1 where X: "(case outputs r of None \<Rightarrow> (Inr [], w0)
            | Some outs \<Rightarrow> process_outputs e (iso_now e) outs ([], w0)) = (x, w1)"
    by (cases "(case outputs r of None \<Rightarrow> (Inr [], w0)
            | Some outs \<Rightarrow> process_outputs e (iso_now e) outs ([], w0))")
  note x = extract_after_outputs[OF X]
  have E: "(enumerate 0 (crops_of_response r) = []) = (crops_of_response r = [])"
    by (cases "crops_of_response r") simp_all
  show ?thesis
  proof (cases "has_null_output r")
    case True
    then show ?thesis
      unfolding extract_body_def Let_def option.case X using x
      by (simp add: extraction_failed_def)
  next
    case False
    show ?thesis
    proof (cases "predictions r")
      case None
      then show ?thesis
        unfolding extract_body_def Let_def option.case X using x False
        by (simp add: fallback_predictions_def extraction_failed_def
            has_untestable_prediction_def)
    next
      case (Some ps)
      show ?thesis
      proof (cases "crops_of_response r = []")
        case nonempty: False
        then show ?thesis
          unfolding extract_body_def Let_def option.case X using x False Some
          by (simp add: E extraction_failed_def)
      next
        case empty: True
        show ?thesis
        proof (cases "list_ex untestable ps")
          case True
          from filter_dog_detections_throws[OF this] obtain err
            where "filter_dog_detections ps = Inl err"
            by (cases "filter_dog_detections ps") simp_all
          then show ?thesis
            unfolding extract_body_def Let_def option.case X using x False Some empty True
            by (simp add: extraction_failed_def has_untestable_prediction_def)
        next
          case ok: False
          let ?ds = "filter (\<lambda>p. class_is_dog (pred_class p) \<and> pred_confidence p > 0.5)
                (prediction_objects ps)"
          have K: "filter_dog_detections ps = Inr ?ds"
            by (rule filter_dog_detections_keeps[OF ok])
          have F: "process_detections e (iso_now e) ?ds []
                 = map (dog_of_prediction e) (enumerate 0 (fallback_predictions r))"
            by (simp only: process_detections_dogs fallback_filter[OF Some]
                append_Nil list.size)
          show ?thesis
            unfolding extract_body_def Let_def option.case X using x False Some empty ok F
            by (simp add: K extraction_failed_def has_untestable_prediction_def)
        qed
      qed
    qed
  qed
qed

lemma extractDogImages_null: "fst (extractDogImages e None w) = []"
  by (simp add: extractDogImages_def extract_body_def)

lemma extractDogImages_dogs:
  "fst (extractDogImages e (Some r) w)
     = (if extraction_failed r then []
        else if crops_of_response r \<noteq> []
        then map (dog_of_crop e) (enumerate 0 (crops_of_response r))
        else map (dog_of_prediction e) (enumerate 0 (fallback_predictions r)))"
proof -
  let ?w0 = "debugLog e ''Roboflow API Response'' w"
  obtain x w1 where X: "extract_body e (Some r) ?w0 = (x, w1)"
    by (cases "extract_body e (Some r) ?w0")
  show ?thesis
  proof (cases "extraction_failed r")
    case True
    with extract_body_dogs[of r e ?w0] have "isl x" using X by simp
    then obtain err where "x = Inl err" by (cases x) simp_all
    then show ?thesis unfolding extractDogImages_def X using True by simp
  next
    case False
    with extract_body_dogs[of r e ?w0]
    have "x = Inr (if crops_of_response r \<noteq> []
                 then map (dog_of_crop e) (enumerate 0 (crops_of_response r))
                 else map (dog_of_prediction e) (enumerate 0 (fallback_predictions r)))"
      using X by simp
    then show ?thesis unfolding extractDogImages_def X using False by simp
  qed
qed


lemma extract_crop_response:
  "fst (extractDogImages steady_env (Some crop_response) example_world)
     = [\<lparr>dog_id = Some ''dog-1700000000000-0'', confidence = 1,
         bbox = \<lparr>bbox_x = 0, bbox_y = 0, bbox_width = 0, bbox_height = 0\<rparr>,
         imageData = Some ''QUJD'', timestamp = Some ''2023-11-14T22:13:20.000Z''\<rparr>]"
  by (simp add: extractDogImages_def extract_body_def crop_response_def steady_env_def
      debugLog_def example_world_def example_service_def truthy_def crop_dog_def show_nat_now
      show_nat_0 str_or_def Let_def)




lemma map_enumerate_snd: "map (\<lambda>ix. f (snd ix)) (enumerate n xs) = map f xs"
  by (induction xs arbitrary: n) simp_all

lemma crop_dog_fields:
  "(confidence (dog_of_crop e ic), bbox (dog_of_crop e ic), imageData (dog_of_crop e ic))
     = (1, zero_bbox, crop_value (snd ic))"
  by (simp add: dog_of_crop_def crop_dog_def zero_bbox_def)

lemma prediction_dog_fields:
  "pred_confidence (snd ip) > 0.5 \<Longrightarrow>
   (confidence (dog_of_prediction e ip), bbox (dog_of_prediction e ip),
    imageData (dog_of_prediction e ip))
     = (pred_confidence (snd ip), prediction_bbox (snd ip), detection_imageData (snd ip))"
  by (simp add: dog_of_prediction_def detection_dog_def prediction_bbox_def num_or_def)

lemma fallback_confident: "p \<in> set (fallback_predictions r) \<Longrightarrow> pred_confidence p > 0.5"
  by (cases "predictions r") (simp_all add: fallback_predictions_def)


subsection \<open>Lower case\<close>







lemma flaky_run:
  "processWithRoboflow flaky_env [0x41] ''image/png'' 3 1000 example_world
    = (Inr (Some example_response),
       \<lparr>svc = example_service,
        effects = [the_post example_service ''data:image/png;base64,QQ=='' 1, SetTimeout 1000,
                   the_post example_service ''data:image/png;base64,QQ=='' 2, SetTimeout 2000,
                   the_post example_service ''data:image/png;base64,QQ=='' 3]\<rparr>)"
  by (simp add: processWithRoboflow_def retry_loop.simps makeRequest_def axios_post_def
      debugLog_def example_world_def example_service_def flaky_env_def perform_def
      request_config_def no_retry_def the_post_def b64_char_def b64_chars_def Let_def)

lemma default_call_bounds:
  assumes "call_trace w u 3 1000 f w'"
  shows "length (posts (effects_since w w')) \<le> 3
     \<and> scheduled_delays (effects_since w w')
         = take (length (scheduled_delays (effects_since w w'))) [1000, 2000, 4000]"
proof -
  from assms obtain k where K:
    "posts (effects_since w w') = map (the_post (svc w) u) [1..<1 + k]"
    "(if f then k = nat 3 \<and> scheduled_delays (effects_since w w') = map (backoff 1000) [1..<1 + k]
      else 0 < k \<and> int k \<le> 3
        \<and> scheduled_delays (effects_since w w') = map (backoff 1000) [1..<k])"
    unfolding call_trace_def by (elim exE conjE)
  have k3: "k \<le> 3" using K(2) by (cases f) simp_all
  have L: "length (posts (effects_since w w')) \<le> 3" unfolding K(1) using k3 by simp
  have B: "map (backoff 1000) [1..<4] = [1000, 2000, 4000]"
    by (simp add: backoff_def upt_conv_Cons)
  show ?thesis
  proof (cases f)
    case True
    with K(2) have "k = nat 3 \<and> scheduled_delays (effects_since w w')
        = map (backoff 1000) [1..<1 + k]"
      by (simp only: if_True)
    note X = this
    have kn: "k = nat 3" by (rule X[THEN conjunct1])
    have D: "scheduled_delays (effects_since w w') = map (backoff 1000) [1..<1 + k]"
      by (rule X[THEN conjunct2])
    have k: "1 + k = 4" using kn by simp
    have "scheduled_delays (effects_since w w') = [1000, 2000, 4000]"
      unfolding D k by (rule B)
    then show ?thesis using L by simp
  next
    case False
    with K(2) have "0 < k \<and> int k \<le> 3
        \<and> scheduled_delays (effects_since w w') = map (backoff 1000) [1..<k]"
      by (simp only: if_False)
    note X = this
    have k: "0 < k" by (rule X[THEN conjunct1])
    have D: "scheduled_delays (effects_since w w') = map (backoff 1000) [1..<k]"
      by (rule X[THEN conjunct2, THEN conjunct2])
    from k k3 have "k = 1 \<or> k = 2 \<or> k = 3" by arith
    then have "scheduled_delays (effects_since w w')
         = take (length (scheduled_delays (effects_since w w'))) [1000, 2000, 4000]"
      unfolding D by (elim disjE) (simp_all add: backoff_def upt_conv_Cons)
    then show ?thesis using L by simp
  qed
qed

section \<open>The claims\<close>

text \<open>
  C1. For every \<open>retryCount \<ge> 1\<close>, a call of \<^verbatim>\<open>processWithRoboflow\<close> makes at
  least one and at most \<open>retryCount\<close> requests. Its requests and delays, in the order
  they happen, are: for each failed attempt \<open>i = 1, 2, \<dots>\<close> the request of attempt
  \<open>i\<close> followed by a delay of \<open>initialDelayMs * 2 ^ (i - 1)\<close>, and then, when the
  call returns a response, the request of the attempt that succeeded. With the defaults,
  as \<^verbatim>\<open>detectDogs\<close> calls it, there are at most 3 requests and the delays are the
  first ones of 1000, 2000, 4000. The loop is a total function (its termination is
  proved where it is defined), so every call ends.
\<close>

theorem processWithRoboflow_bounded_retries:
  assumes "1 \<le> retryCount"
  shows "(let R = processWithRoboflow e imageBuffer mt retryCount initialDelayMs w;
              new = effects_since w (snd R);
              failed = length (scheduled_delays new)
          in effects (snd R) = effects w @ new
           \<and> 1 \<le> length (posts new) \<and> int (length (posts new)) \<le> retryCount
           \<and> filter is_net new
               = failed_rounds (svc w) (data_url imageBuffer mt) initialDelayMs 1 failed
                 @ (case fst R of
                      Inl err \<Rightarrow> []
                    | Inr r \<Rightarrow> [the_post (svc w) (data_url imageBuffer mt) (Suc failed)])
           \<and> scheduled_delays new = map (\<lambda>i. initialDelayMs * 2 ^ (i - 1)) [1..<Suc failed])
   \<and> length (posts (effects_since w (snd (service_detectDogs e up w)))) \<le> 3
   \<and> scheduled_delays (effects_since w (snd (service_detectDogs e up w)))
       = take (length (scheduled_delays (effects_since w (snd (service_detectDogs e up w)))))
           [1000, 2000, 4000]"
proof (rule conjI)
  from call_trace_service[of e up w]
  show "length (posts (effects_since w (snd (service_detectDogs e up w)))) \<le> 3
   \<and> scheduled_delays (effects_since w (snd (service_detectDogs e up w)))
       = take (length (scheduled_delays (effects_since w (snd (service_detectDogs e up w)))))
           [1000, 2000, 4000]"
    by (elim exE conjE) (rule default_call_bounds)
next
  let ?R = "processWithRoboflow e imageBuffer mt retryCount initialDelayMs w"
  let ?new = "effects_since w (snd ?R)"
  let ?u = "data_url imageBuffer mt"
  have CT: "call_trace w ?u retryCount initialDelayMs (isl (fst ?R)) (snd ?R)"
    by (rule call_trace_processWithRoboflow)
  have c1: "effects (snd ?R) = effects w @ ?new"
    using CT by (auto simp: call_trace_def extends_def)
  have c2: "1 \<le> length (posts ?new) \<and> int (length (posts ?new)) \<le> retryCount"
    using CT assms unfolding call_trace_def by (cases "isl (fst ?R)") auto
  from net_processWithRoboflow[of w e imageBuffer mt retryCount initialDelayMs]
  show "(let R = processWithRoboflow e imageBuffer mt retryCount initialDelayMs w;
              new = effects_since w (snd R);
              failed = length (scheduled_delays new)
          in effects (snd R) = effects w @ new
           \<and> 1 \<le> length (posts new) \<and> int (length (posts new)) \<le> retryCount
           \<and> filter is_net new
               = failed_rounds (svc w) (data_url imageBuffer mt) initialDelayMs 1 failed
                 @ (case fst R of
                      Inl err \<Rightarrow> []
                    | Inr r \<Rightarrow> [the_post (svc w) (data_url imageBuffer mt) (Suc failed)])
           \<and> scheduled_delays new = map (\<lambda>i. initialDelayMs * 2 ^ (i - 1)) [1..<Suc failed])"
  proof (elim exE)
    fix j
    assume J: "filter is_net ?new
        = failed_rounds (svc w) ?u initialDelayMs 1 j
          @ (case fst ?R of Inl err \<Rightarrow> [] | Inr r \<Rightarrow> [the_post (svc w) ?u (Suc j)])"
    have "scheduled_delays ?new = scheduled_delays (filter is_net ?new)"
      by (simp add: delays_filter_net)
    also have "\<dots> = map (backoff initialDelayMs) [1..<1 + j]"
      unfolding J delays_append delays_failed_rounds
      by (simp add: scheduled_delays_def the_post_def split: sum.split)
    finally have D: "scheduled_delays ?new = map (backoff initialDelayMs) [1..<1 + j]" .
    then have len: "length (scheduled_delays ?new) = j" by simp
    have c3: "scheduled_delays ?new = map (\<lambda>i. initialDelayMs * 2 ^ (i - 1)) [1..<Suc j]"
      unfolding D by (simp add: backoff_def)
    show ?thesis unfolding Let_def len
      by (intro conjI c1 c2[THEN conjunct1] c2[THEN conjunct2] J c3)
  qed
qed

theorem processWithRoboflow_bounded_retries_witness:
  "(1::int) \<le> 3
   \<and> int (length (posts (effects_since example_world
        (snd (processWithRoboflow flaky_env [0x41] ''image/png'' 3 1000 example_world))))) \<le> 3
   \<and> posts (effects_since example_world
        (snd (processWithRoboflow flaky_env [0x41] ''image/png'' 3 1000 example_world)))
      = map (the_post example_service ''data:image/png;base64,QQ=='') [1, 2, 3]
   \<and> scheduled_delays (effects_since example_world
        (snd (processWithRoboflow flaky_env [0x41] ''image/png'' 3 1000 example_world)))
      = [1000, 2000]"
proof -
  let ?new = "effects_since example_world
        (snd (processWithRoboflow flaky_env [0x41] ''image/png'' 3 1000 example_world))"
  have h: "(1::int) \<le> 3" by simp
  have B: "int (length (posts ?new)) \<le> 3"
    using processWithRoboflow_bounded_retries[OF h,
      of flaky_env "[0x41]" "''image/png''" 1000 example_world, THEN conjunct1,
      unfolded Let_def]
    by (elim conjE)
  have D: "scheduled_delays ?new = [1000, 2000]"
    unfolding flaky_run
    by (simp add: effects_since_def example_world_def scheduled_delays_def the_post_def)
  have P: "posts ?new = map (the_post example_service ''data:image/png;base64,QQ=='') [1, 2, 3]"
    unfolding flaky_run
    by (simp add: effects_since_def example_world_def posts_def the_post_def)
  show ?thesis by (intro conjI h B P D)
qed

text \<open>
  C2, as stated, fails for a body whose image is truthy and not a string, such as
  \<^verbatim>\<open>{"image": 123}\<close>: the input is malformed, yet \<^verbatim>\<open>image.match\<close> throws a
  TypeError before the \<^verbatim>\<open>try\<close> block and the answer is a 500, not a 400.
\<close>

theorem numeric_image_is_not_a_bad_request:
  "truthy_value (JNum 123)
   \<and> controller_detectDogs steady_env \<lparr>dto_image = JNum 123\<rparr> example_world
       = (Inl (TypeError ''image.match is not a function''), example_world)
   \<and> http_status (TypeError ''image.match is not a function'') = 500"
  by (simp add: controller_detectDogs_def)

text \<open>
  C2, amended. For every body, the endpoint answers with \<^verbatim>\<open>BadRequestException\<close>
  (status 400) exactly when the image is absent or falsy (\<^verbatim>\<open>null\<close>, \<^verbatim>\<open>false\<close>,
  \<^verbatim>\<open>0\<close>, the empty string), or is a string that is not in the language of the
  regular expression \<open>matches_data_url\<close>; the matcher the controller runs decides
  that language. A string in the language is split into its two groups, the controller
  returns what the service returns for the file built from them, and at least one
  request goes to the vendor. A truthy image that is not a string gets a TypeError
  (status 500), and nothing is sent to the vendor.
\<close>

theorem detect_dogs_rejects_exactly_malformed_input:
  "((\<exists>m. fst (controller_detectDogs e body w) = Inl (BadRequestException m))
      \<longleftrightarrow> (\<not> truthy_value (dto_image body)
           \<or> (\<exists>img. dto_image body = JStr img \<and> \<not> matches_data_url img)))
   \<and> ((\<exists>x. fst (controller_detectDogs e body w) = Inl x \<and> http_status x = 400)
      \<longleftrightarrow> (\<not> truthy_value (dto_image body)
           \<or> (\<exists>img. dto_image body = JStr img \<and> \<not> matches_data_url img)))
   \<and> (\<forall>img. dto_image body = JStr img \<and> matches_data_url img \<longrightarrow>
        (\<exists>mt payload.
           img = ''data:image/'' @ mt @ '';base64,'' @ payload
           \<and> list_all is_letter mt \<and> CHR 0x22 \<notin> set payload
           \<and> controller_detectDogs e body w
               = (Inr (projr (fst (service_detectDogs e (upload_of (mt, payload)) w))),
                  snd (service_detectDogs e (upload_of (mt, payload)) w))
           \<and> posts (effects_since w (snd (controller_detectDogs e body w))) \<noteq> []))
   \<and> (truthy_value (dto_image body) \<and> (\<forall>s. dto_image body \<noteq> JStr s) \<longrightarrow>
        controller_detectDogs e body w
          = (Inl (TypeError ''image.match is not a function''), w)
        \<and> http_status (TypeError ''image.match is not a function'') = 500)"
proof -
  let ?bad = "\<not> truthy_value (dto_image body)
           \<or> (\<exists>img. dto_image body = JStr img \<and> \<not> matches_data_url img)"
  let ?served = "\<forall>img. dto_image body = JStr img \<and> matches_data_url img \<longrightarrow>
        (\<exists>mt payload.
           img = ''data:image/'' @ mt @ '';base64,'' @ payload
           \<and> list_all is_letter mt \<and> CHR 0x22 \<notin> set payload
           \<and> controller_detectDogs e body w
               = (Inr (projr (fst (service_detectDogs e (upload_of (mt, payload)) w))),
                  snd (service_detectDogs e (upload_of (mt, payload)) w))
           \<and> posts (effects_since w (snd (controller_detectDogs e body w))) \<noteq> [])"
  let ?thrown = "truthy_value (dto_image body) \<and> (\<forall>s. dto_image body \<noteq> JStr s) \<longrightarrow>
        controller_detectDogs e body w
          = (Inl (TypeError ''image.match is not a function''), w)
        \<and> http_status (TypeError ''image.match is not a function'') = 500"
  have B: "body = \<lparr>dto_image = dto_image body\<rparr>" by (cases body) simp
  have status: "\<And>x. http_status x = 400 \<longleftrightarrow> (\<exists>m. x = BadRequestException m)"
  proof -
    fix x show "http_status x = 400 \<longleftrightarrow> (\<exists>m. x = BadRequestException m)"
      by (cases x) simp_all
  qed
  have S: "(\<exists>x. fst (controller_detectDogs e body w) = Inl x \<and> http_status x = 400)
      \<longleftrightarrow> (\<exists>m. fst (controller_detectDogs e body w) = Inl (BadRequestException m))"
    unfolding status by blast
  have T: ?thrown
  proof (intro impI, elim conjE)
    assume t: "truthy_value (dto_image body)" and n: "\<forall>s. dto_image body \<noteq> JStr s"
    have "controller_detectDogs e \<lparr>dto_image = dto_image body\<rparr> w
          = (Inl (TypeError ''image.match is not a function''), w)"
      using n by (intro controller_not_string[OF t]) simp
    then show "controller_detectDogs e body w
          = (Inl (TypeError ''image.match is not a function''), w)
        \<and> http_status (TypeError ''image.match is not a function'') = 500"
      using B by simp
  qed
  have main: "((\<exists>m. fst (controller_detectDogs e body w) = Inl (BadRequestException m))
      \<longleftrightarrow> ?bad) \<and> ?served"
  proof (cases "\<exists>img. dto_image body = JStr img")
    case False
    then have N: "\<forall>s. dto_image body \<noteq> JStr s" by simp
    show ?thesis
    proof (cases "truthy_value (dto_image body)")
      case True
      from T True N have "fst (controller_detectDogs e body w)
          = Inl (TypeError ''image.match is not a function'')" by simp
      then show ?thesis using True N by simp
    next
      case False
      have "controller_detectDogs e \<lparr>dto_image = dto_image body\<rparr> w
          = (Inl (BadRequestException ''No image data provided''), w)"
        by (rule controller_absent[OF False])
      then have "fst (controller_detectDogs e body w)
          = Inl (BadRequestException ''No image data provided'')"
        using B by simp
      then show ?thesis using False N by simp
    qed
  next
    case True
    then obtain img where I: "dto_image body = JStr img" by (elim exE)
    have Bi: "body = \<lparr>dto_image = JStr img\<rparr>" using I by (cases body) simp
    show ?thesis
    proof (cases "validate_image img")
      case (Inl exn)
      have bad: "img = [] \<or> \<not> matches_data_url img"
        using validate_image_iff[of img] Inl by simp
      have nm: "\<not> matches_data_url img"
      proof (cases "img = []")
        case True
        then show ?thesis by (simp add: matches_data_url_def)
      next
        case False
        with bad show ?thesis by simp
      qed
      obtain m where m: "exn = BadRequestException m"
        using Inl by (auto simp: validate_image_def split: if_splits option.splits)
      have "fst (controller_detectDogs e body w) = Inl (BadRequestException m)"
        by (subst Bi) (simp add: controller_invalid[OF Inl] m)
      then show ?thesis using nm I by simp
    next
      case (Inr groups)
      obtain mt payload where G: "groups = (mt, payload)" by (cases groups)
      have V: "validate_image img = Inr (mt, payload)" using Inr G by simp
      have shape: "img = ''data:image/'' @ mt @ '';base64,'' @ payload"
        "list_all is_letter mt" "CHR 0x22 \<notin> set payload"
        using V unfolding validate_image_Inr_iff by simp_all
      have ok: "matches_data_url img" "img \<noteq> []"
        using validate_image_iff[of img] V by auto
      from controller_posts[OF V, of w e]
      have P: "posts (effects_since w (snd (controller_detectDogs e \<lparr>dto_image = JStr img\<rparr> w)))
                 \<noteq> []"
        by (elim exE conjE) (simp add: upt_conv_Cons)
      have R: "controller_detectDogs e \<lparr>dto_image = JStr img\<rparr> w
               = (Inr (projr (fst (service_detectDogs e (upload_of (mt, payload)) w))),
                  snd (service_detectDogs e (upload_of (mt, payload)) w))"
        by (rule controller_valid[OF V])
      have first: "(\<exists>m. fst (controller_detectDogs e body w) = Inl (BadRequestException m))
          \<longleftrightarrow> ?bad"
        unfolding Bi R using ok by simp
      have second: "\<exists>mt payload.
           img = ''data:image/'' @ mt @ '';base64,'' @ payload
           \<and> list_all is_letter mt \<and> CHR 0x22 \<notin> set payload
           \<and> controller_detectDogs e body w
               = (Inr (projr (fst (service_detectDogs e (upload_of (mt, payload)) w))),
                  snd (service_detectDogs e (upload_of (mt, payload)) w))
           \<and> posts (effects_since w (snd (controller_detectDogs e body w))) \<noteq> []"
        unfolding Bi
        by (rule exI[of _ mt], rule exI[of _ payload]) (intro conjI shape R P)
      have ?served
      proof (intro allI impI)
        fix img'
        assume "dto_image body = JStr img' \<and> matches_data_url img'"
        then have "img' = img" using I by simp
        then show "\<exists>mt payload.
           img' = ''data:image/'' @ mt @ '';base64,'' @ payload
           \<and> list_all is_letter mt \<and> CHR 0x22 \<notin> set payload
           \<and> controller_detectDogs e body w
               = (Inr (projr (fst (service_detectDogs e (upload_of (mt, payload)) w))),
                  snd (service_detectDogs e (upload_of (mt, payload)) w))
           \<and> posts (effects_since w (snd (controller_detectDogs e body w))) \<noteq> []"
          using second by simp
      qed
      with first show ?thesis by (rule conjI)
    qed
  qed
  show ?thesis
    unfolding S
    by (intro conjI main[THEN conjunct1] main[THEN conjunct2] T)
qed

theorem detect_dogs_rejects_exactly_malformed_input_witness:
  "fst (controller_detectDogs steady_env \<lparr>dto_image = JStr ''data:image/png;base64''\<rparr>
         example_world)
     = Inl (BadRequestException
         ''Invalid image format. Please provide a valid base64 encoded image.'')
   \<and> \<not> matches_data_url ''data:image/png;base64''
   \<and> fst (controller_detectDogs steady_env \<lparr>dto_image = JStr ''data:image/png;base64,QQ''\<rparr>
         example_world)
     = Inr (success_result [example_dog])
   \<and> matches_data_url ''data:image/png;base64,QQ''
   \<and> truthy_value JObject \<and> (\<forall>s. JObject \<noteq> JStr s)
   \<and> controller_detectDogs steady_env \<lparr>dto_image = JObject\<rparr> example_world
       = (Inl (TypeError ''image.match is not a function''), example_world)"
proof -
  let ?bad = "\<lparr>dto_image = JStr ''data:image/png;base64''\<rparr>"
  let ?good = "\<lparr>dto_image = JStr ''data:image/png;base64,QQ''\<rparr>"
  let ?obj = "\<lparr>dto_image = JObject\<rparr>"
  have V: "validate_image ''data:image/png;base64''
     = Inl (BadRequestException
         ''Invalid image format. Please provide a valid base64 encoded image.'')"
    by (simp add: validate_image_def match_base64Regex_def is_letter_def
        lower_chars_def upper_chars_def)
  have R: "fst (controller_detectDogs steady_env ?bad example_world)
     = Inl (BadRequestException
         ''Invalid image format. Please provide a valid base64 encoded image.'')"
    by (simp add: controller_invalid[OF V])
  have "\<not> truthy_value (dto_image ?bad)
           \<or> (\<exists>img. dto_image ?bad = JStr img \<and> \<not> matches_data_url img)"
    using detect_dogs_rejects_exactly_malformed_input[of steady_env ?bad example_world,
        THEN conjunct1] R by blast
  then have N: "\<not> matches_data_url ''data:image/png;base64''" by simp
  have G: "fst (controller_detectDogs steady_env ?good example_world)
     = Inr (success_result [example_dog])"
    by (simp add: steady_run)
  have "\<not> (\<not> truthy_value (dto_image ?good)
           \<or> (\<exists>img. dto_image ?good = JStr img \<and> \<not> matches_data_url img))"
    using detect_dogs_rejects_exactly_malformed_input[of steady_env ?good example_world,
        THEN conjunct1] G by simp
  then have M: "matches_data_url ''data:image/png;base64,QQ''" by simp
  have O1: "truthy_value JObject" by simp
  have O2: "\<forall>s. JObject \<noteq> JStr s" by simp
  have "truthy_value (dto_image ?obj) \<and> (\<forall>s. dto_image ?obj \<noteq> JStr s)" by simp
  then have O3: "controller_detectDogs steady_env ?obj example_world
       = (Inl (TypeError ''image.match is not a function''), example_world)"
    using detect_dogs_rejects_exactly_malformed_input[of steady_env ?obj example_world,
        THEN conjunct2, THEN conjunct2, THEN conjunct2] by blast
  show ?thesis by (intro conjI R N G M O1 O2 O3)
qed

text \<open>
  C3. For an accepted image, when the three attempts of the vendor call all fail, the
  client receives a detection result that reports the failure: \<^verbatim>\<open>success\<close> is false,
  \<^verbatim>\<open>detectedDogs\<close> is empty, and \<^verbatim>\<open>error\<close> carries the message of the last
  upstream failure. The controller returns this result; it does not raise an exception
  for it.
\<close>

theorem upstream_failure_reaches_the_client:
  assumes "validate_image img = Inr groups"
    and "failing (vendor e 1)" and "failing (vendor e 2)" and "failing (vendor e 3)"
  shows "fst (controller_detectDogs e \<lparr>dto_image = JStr img\<rparr> w)
           = Inr \<lparr>success = False, detectedDogs = [],
                  error = Some (''Failed to detect dogs: Roboflow API Error: ''
                    @ str_or (Some (message (attempt_error (vendor e 3))))
                        ''Failed to process image with Roboflow after multiple attempts''),
                  debugInfo = Some (ErrorInfo (''Roboflow API Error: ''
                    @ str_or (Some (message (attempt_error (vendor e 3))))
                        ''Failed to process image with Roboflow after multiple attempts''))\<rparr>"
proof -
  let ?up = "upload_of groups"
  have all: "\<forall>n. 1 \<le> n \<and> int n \<le> 3 \<longrightarrow> failing (vendor e n)"
  proof (intro allI impI)
    fix n :: nat
    assume "1 \<le> n \<and> int n \<le> 3"
    then have "n = 1 \<or> n = 2 \<or> n = 3" by auto
    then show "failing (vendor e n)" using assms(2-4) by auto
  qed
  have P: "fst (processWithRoboflow e (buffer ?up) (mimetype ?up) 3 1000 w)
       = Inl (all_retries_failed (Some (attempt_error (vendor e (nat 3)))))"
    by (rule processWithRoboflow_all_fail[OF all]) simp
  have R: "response (attempt_error (vendor e 3)) = None"
    by (cases "vendor e 3") (simp_all add: attempt_error_def)
  have M: "message (all_retries_failed (Some (attempt_error (vendor e 3))))
         = ''Roboflow API Error: ''
                    @ str_or (Some (message (attempt_error (vendor e 3))))
                        ''Failed to process image with Roboflow after multiple attempts''"
    by (simp add: all_retries_failed_def R Let_def str_or_None)
  have S: "fst (service_detectDogs e ?up w)
         = Inr (failure_result (all_retries_failed (Some (attempt_error (vendor e 3)))))"
  proof (cases rule: service_cases[of e ?up w])
    case (ok resp w1)
    with P show ?thesis by simp
  next
    case (failed err w1)
    with P show ?thesis by simp
  qed
  show ?thesis
    unfolding controller_valid[OF assms(1)] S
    by (simp add: failure_result_def M)
qed

theorem upstream_failure_reaches_the_client_witness:
  "validate_image example_image = Inr (''png'', ''QUJD'')
   \<and> failing (vendor not_found_env 1) \<and> failing (vendor not_found_env 2)
   \<and> failing (vendor not_found_env 3)
   \<and> fst (controller_detectDogs not_found_env \<lparr>dto_image = JStr example_image\<rparr> example_world)
       = Inr \<lparr>success = False, detectedDogs = [],
              error = Some ''Failed to detect dogs: Roboflow API Error: HTTP 404: Not Found'',
              debugInfo = Some (ErrorInfo ''Roboflow API Error: HTTP 404: Not Found'')\<rparr>"
proof -
  have F: "failing (vendor not_found_env 1)" "failing (vendor not_found_env 2)"
    "failing (vendor not_found_env 3)"
    by (simp_all add: not_found_env_def failing_def)
  have N: "show_nat 404 = ''404''" by (simp add: show_nat.simps digit_chars_def)
  have A: "message (attempt_error (vendor not_found_env 3)) = ''HTTP 404: Not Found''"
    by (simp add: not_found_env_def attempt_error_def N)
  note T = upstream_failure_reaches_the_client[OF validate_example_image F, of example_world]
  have C: "fst (controller_detectDogs not_found_env \<lparr>dto_image = JStr example_image\<rparr> example_world)
       = Inr \<lparr>success = False, detectedDogs = [],
              error = Some ''Failed to detect dogs: Roboflow API Error: HTTP 404: Not Found'',
              debugInfo = Some (ErrorInfo ''Roboflow API Error: HTTP 404: Not Found'')\<rparr>"
    unfolding T A by (simp add: str_or_def)
  show ?thesis by (intro conjI validate_example_image F C)
qed

text \<open>
  C4, as stated, fails: a dog taken from a \<^verbatim>\<open>dynamic_crop\<close> entry has confidence 1
  and an all-zero box, whatever boxes and confidences the vendor's response holds.
\<close>

theorem crop_dogs_carry_no_vendor_box:
  "predictions crop_response = Some [Prediction example_prediction]
   \<and> prediction_bbox example_prediction
       = \<lparr>bbox_x = 10, bbox_y = 20, bbox_width = 30, bbox_height = 40\<rparr>
   \<and> pred_confidence example_prediction = 9 / 10
   \<and> fst (extractDogImages steady_env (Some crop_response) example_world)
       = [\<lparr>dog_id = Some ''dog-1700000000000-0'', confidence = 1,
           bbox = \<lparr>bbox_x = 0, bbox_y = 0, bbox_width = 0, bbox_height = 0\<rparr>,
           imageData = Some ''QUJD'', timestamp = Some ''2023-11-14T22:13:20.000Z''\<rparr>]"
  by (simp add: extract_crop_response)
     (simp add: crop_response_def prediction_bbox_def example_prediction_def)

text \<open>
  C4, amended. The confidence, box and image of the detected dogs are: for dogs taken
  from the predictions (the fallback), the confidence, \<open>x\<close>, \<open>y\<close>, \<open>width\<close>,
  \<open>height\<close> and image data of their prediction, in order; for dogs taken from
  \<^verbatim>\<open>dynamic_crop\<close> entries, confidence 1, the all-zero box and the crop's value; and
  no dog at all when the extraction raises an error (\<open>extraction_failed\<close>, or a
  response that is \<^verbatim>\<open>null\<close>).
\<close>

theorem detected_dogs_boxes:
  "map (\<lambda>d. (confidence d, bbox d, imageData d)) (fst (extractDogImages e (Some r) w))
     = (if extraction_failed r then []
        else if crops_of_response r \<noteq> []
        then map (\<lambda>c. (1, zero_bbox, crop_value c)) (crops_of_response r)
        else map (\<lambda>p. (pred_confidence p, prediction_bbox p, detection_imageData p))
               (fallback_predictions r))
   \<and> fst (extractDogImages e None w) = []"
proof (rule conjI)
  show "fst (extractDogImages e None w) = []" by (rule extractDogImages_null)
next
  have C: "map (\<lambda>d. (confidence d, bbox d, imageData d))
             (map (dog_of_crop e) (enumerate 0 (crops_of_response r)))
           = map (\<lambda>c. (1, zero_bbox, crop_value c)) (crops_of_response r)"
    unfolding map_map comp_def crop_dog_fields by (rule map_enumerate_snd)
  have "map (\<lambda>d. (confidence d, bbox d, imageData d))
             (map (dog_of_prediction e) (enumerate 0 (fallback_predictions r)))
           = map (\<lambda>ip. (pred_confidence (snd ip), prediction_bbox (snd ip),
                          detection_imageData (snd ip)))
               (enumerate 0 (fallback_predictions r))"
    unfolding map_map comp_def
  proof (rule map_cong[OF refl])
    fix ip
    assume "ip \<in> set (enumerate 0 (fallback_predictions r))"
    then have "snd ip \<in> set (map snd (enumerate 0 (fallback_predictions r)))"
      unfolding set_map by (rule imageI)
    then have "snd ip \<in> set (fallback_predictions r)"
      by (simp only: map_snd_enumerate)
    then have "pred_confidence (snd ip) > 0.5" by (rule fallback_confident)
    then show "(confidence (dog_of_prediction e ip), bbox (dog_of_prediction e ip),
                imageData (dog_of_prediction e ip))
       = (pred_confidence (snd ip), prediction_bbox (snd ip), detection_imageData (snd ip))"
      by (rule prediction_dog_fields)
  qed
  also have "\<dots> = map (\<lambda>p. (pred_confidence p, prediction_bbox p, detection_imageData p))
               (fallback_predictions r)"
    by (rule map_enumerate_snd)
  finally have P: "map (\<lambda>d. (confidence d, bbox d, imageData d))
             (map (dog_of_prediction e) (enumerate 0 (fallback_predictions r)))
           = map (\<lambda>p. (pred_confidence p, prediction_bbox p, detection_imageData p))
               (fallback_predictions r)" .
  show "map (\<lambda>d. (confidence d, bbox d, imageData d)) (fst (extractDogImages e (Some r) w))
     = (if extraction_failed r then []
        else if crops_of_response r \<noteq> []
        then map (\<lambda>c. (1, zero_bbox, crop_value c)) (crops_of_response r)
        else map (\<lambda>p. (pred_confidence p, prediction_bbox p, detection_imageData p))
               (fallback_predictions r))"
    unfolding extractDogImages_dogs using C P by simp
qed

theorem detected_dogs_boxes_witness:
  "map (\<lambda>d. (confidence d, bbox d, imageData d))
     (fst (extractDogImages steady_env (Some example_response) example_world))
     = [(9 / 10, \<lparr>bbox_x = 10, bbox_y = 20, bbox_width = 30, bbox_height = 40\<rparr>,
         Some ''QUJD'')]"
  unfolding detected_dogs_boxes[THEN conjunct1]
  by (simp add: extraction_failed_def has_null_output_def has_untestable_prediction_def
      crops_of_response_def fallback_predictions_def
      example_response_def example_prediction_def toLowerCase_def lower_char_def
      upper_chars_def lower_chars_def detection_imageData_def truthy_def prediction_bbox_def)

text \<open>
  C5, as stated, fails: the endpoint accepts the payload \<^verbatim>\<open>QQ\<close> (base64 without
  padding), decodes it to one byte and sends the vendor the payload \<^verbatim>\<open>QQ==\<close>.
\<close>

theorem payload_is_reencoded:
  "validate_image ''data:image/png;base64,QQ'' = Inr (''png'', ''QQ'')
   \<and> map post_image (posts (effects_since example_world
        (snd (controller_detectDogs steady_env \<lparr>dto_image = JStr ''data:image/png;base64,QQ''\<rparr>
               example_world))))
      = [''data:image/png;base64,QQ=='']
   \<and> ''data:image/png;base64,QQ=='' \<noteq> ''data:image/png;base64,QQ''"
proof (intro conjI)
  show "validate_image ''data:image/png;base64,QQ'' = Inr (''png'', ''QQ'')"
    by (simp add: validate_image_def match_base64Regex_def is_letter_def
        lower_chars_def upper_chars_def)
  show "map post_image (posts (effects_since example_world
        (snd (controller_detectDogs steady_env \<lparr>dto_image = JStr ''data:image/png;base64,QQ''\<rparr>
               example_world))))
      = [''data:image/png;base64,QQ=='']"
    unfolding steady_run
    by (simp add: effects_since_def example_world_def posts_def the_post_def)
  show "''data:image/png;base64,QQ=='' \<noteq> ''data:image/png;base64,QQ''" by simp
qed

text \<open>
  C5, amended. Decoding an encoded buffer gives the buffer back. So a client that
  sends \<^verbatim>\<open>data:image/<letters>;base64,\<close> followed by the standard padded encoding of
  some bytes is accepted, and every request to the vendor carries exactly the data URL
  the client supplied. For any accepted image the data URL sent keeps the prefix and
  carries the re-encoding of the decoded payload.
\<close>

theorem canonical_payload_is_forwarded_unmodified:
  "b64_decode (b64_encode bs) = bs
   \<and> (list_all is_letter mt \<longrightarrow>
        validate_image (''data:image/'' @ mt @ '';base64,'' @ b64_encode bs)
          = Inr (mt, b64_encode bs)
        \<and> posts (effects_since w (snd (controller_detectDogs e
              \<lparr>dto_image = JStr (''data:image/'' @ mt @ '';base64,'' @ b64_encode bs)\<rparr> w))) \<noteq> []
        \<and> list_all (\<lambda>p. post_image p = ''data:image/'' @ mt @ '';base64,'' @ b64_encode bs)
             (posts (effects_since w (snd (controller_detectDogs e
                \<lparr>dto_image = JStr (''data:image/'' @ mt @ '';base64,'' @ b64_encode bs)\<rparr> w)))))
   \<and> (validate_image img = Inr (mt', payload) \<longrightarrow>
        list_all (\<lambda>p. post_image p
                    = ''data:image/'' @ mt' @ '';base64,'' @ b64_encode (b64_decode payload))
          (posts (effects_since w (snd (controller_detectDogs e \<lparr>dto_image = JStr img\<rparr> w)))))"
proof (intro conjI impI)
  show "b64_decode (b64_encode bs) = bs" by (rule b64_roundtrip)
next
  assume L: "list_all is_letter mt"
  let ?img = "''data:image/'' @ mt @ '';base64,'' @ b64_encode bs"
  show V: "validate_image ?img = Inr (mt, b64_encode bs)"
    unfolding validate_image_Inr_iff using L b64_encode_no_quote[of bs] by simp
  from controller_posts[OF V, of w e] obtain k where K: "0 < k"
    "posts (effects_since w (snd (controller_detectDogs e \<lparr>dto_image = JStr ?img\<rparr> w)))
       = map (the_post (svc w) ?img) [1..<1 + k]"
    unfolding b64_roundtrip by (elim exE conjE)
  show "posts (effects_since w (snd (controller_detectDogs e \<lparr>dto_image = JStr ?img\<rparr> w))) \<noteq> []"
    unfolding K(2) using K(1) by (simp add: upt_conv_Cons)
  show "list_all (\<lambda>p. post_image p = ?img)
          (posts (effects_since w (snd (controller_detectDogs e \<lparr>dto_image = JStr ?img\<rparr> w))))"
    unfolding K(2) by (rule list_all_post_image)
next
  assume V: "validate_image img = Inr (mt', payload)"
  from controller_posts[OF V, of w e]
  show "list_all (\<lambda>p. post_image p
                    = ''data:image/'' @ mt' @ '';base64,'' @ b64_encode (b64_decode payload))
          (posts (effects_since w (snd (controller_detectDogs e \<lparr>dto_image = JStr img\<rparr> w))))"
    by (elim exE conjE) (simp only: list_all_post_image)
qed

theorem canonical_payload_is_forwarded_unmodified_witness:
  "list_all is_letter ''png''
   \<and> b64_encode [0x41, 0x42, 0x43] = ''QUJD''
   \<and> posts (effects_since example_world
        (snd (controller_detectDogs steady_env \<lparr>dto_image = JStr example_image\<rparr> example_world)))
       \<noteq> []
   \<and> list_all (\<lambda>p. post_image p = example_image)
       (posts (effects_since example_world
          (snd (controller_detectDogs steady_env \<lparr>dto_image = JStr example_image\<rparr>
                 example_world))))"
proof -
  have L: "list_all is_letter ''png''"
    by (simp add: is_letter_def lower_chars_def upper_chars_def)
  have E: "b64_encode [0x41, 0x42, 0x43] = ''QUJD''" by (rule b64_encode_ABC)
  have I: "''data:image/'' @ ''png'' @ '';base64,'' @ b64_encode [0x41, 0x42, 0x43] = example_image"
    unfolding E by (simp add: example_image_def)
  note T = canonical_payload_is_forwarded_unmodified[of "[0x41, 0x42, 0x43]" "''png''"
      example_world steady_env, THEN conjunct2, THEN conjunct1, rule_format, OF L, unfolded I]
  show ?thesis using L E T by (intro conjI) (elim conjE, assumption)+
qed

text \<open>
  C6. Handling a request leaves the service as it was and only appends to the effects;
  with the debug flag off it performs no \<^verbatim>\<open>mkdir\<close> and no \<^verbatim>\<open>appendFile\<close>. What a
  request returns and does is independent of the effects of earlier requests: run after
  any history \<open>h\<close>, it gives the same result and the same new effects.
\<close>

theorem request_mutates_no_state:
  "svc (snd (controller_detectDogs e body w)) = svc w
   \<and> effects (snd (controller_detectDogs e body w))
       = effects w @ effects_since w (snd (controller_detectDogs e body w))
   \<and> (\<not> debug (svc w) \<longrightarrow>
        filter is_fs_op (effects_since w (snd (controller_detectDogs e body w))) = [])
   \<and> controller_detectDogs e body (with_history h w)
       = lift_history h (controller_detectDogs e body w)"
  using fs_free_controller[of w e body] controller_history[of e body h w]
  unfolding fs_free_def extends_def by (intro conjI) simp_all

theorem request_mutates_no_state_witness:
  "\<not> debug (svc example_world)
   \<and> svc (snd (controller_detectDogs steady_env \<lparr>dto_image = JStr ''data:image/png;base64,QQ''\<rparr>
         example_world)) = example_service
   \<and> filter is_fs_op (effects_since example_world
        (snd (controller_detectDogs steady_env \<lparr>dto_image = JStr ''data:image/png;base64,QQ''\<rparr>
               example_world))) = []
   \<and> length (effects_since example_world
        (snd (controller_detectDogs steady_env \<lparr>dto_image = JStr ''data:image/png;base64,QQ''\<rparr>
               example_world))) = 1"
proof -
  let ?body = "\<lparr>dto_image = JStr ''data:image/png;base64,QQ''\<rparr>"
  have D: "\<not> debug (svc example_world)"
    by (simp add: example_world_def example_service_def)
  note T = request_mutates_no_state[of steady_env ?body example_world "[]"]
  have S: "svc (snd (controller_detectDogs steady_env ?body example_world)) = example_service"
    using T by (simp add: example_world_def)
  have F: "filter is_fs_op (effects_since example_world
        (snd (controller_detectDogs steady_env ?body example_world))) = []"
    using T D by (elim conjE) (erule mp)
  have N: "length (effects_since example_world
        (snd (controller_detectDogs steady_env ?body example_world))) = 1"
    unfolding steady_run by (simp add: effects_since_def example_world_def)
  show ?thesis by (intro conjI D S F N)
qed

text \<open>
  C7. Every request of a call of \<^verbatim>\<open>processWithRoboflow\<close>, and so every request the
  endpoint makes, carries the same options: a timeout of 60000 ms, and neither a
  \<^verbatim>\<open>signal\<close> nor a \<^verbatim>\<open>cancelToken\<close>.
\<close>

theorem every_attempt_has_the_fixed_timeout:
  "list_all fixed_timeout (posts (effects_since w (snd (processWithRoboflow e buf mt rc d w))))
   \<and> list_all fixed_timeout (posts (effects_since w (snd (controller_detectDogs e body w))))"
proof
  show "list_all fixed_timeout (posts (effects_since w (snd (processWithRoboflow e buf mt rc d w))))"
    using call_trace_processWithRoboflow[of w buf mt rc d e]
    unfolding call_trace_def by (elim exE conjE) (simp add: list_all_fixed_timeout)
next
  from call_trace_controller[of w e body]
  show "list_all fixed_timeout (posts (effects_since w (snd (controller_detectDogs e body w))))"
  proof (elim disjE exE conjE)
    assume "posts (effects_since w (snd (controller_detectDogs e body w))) = []"
    then show ?thesis by simp
  next
    fix img groups
    assume "call_trace w (data_url (b64_decode (snd groups)) (''image/'' @ fst groups)) 3 1000
             (\<not> success (projr (fst (controller_detectDogs e body w))))
             (snd (controller_detectDogs e body w))"
    then show ?thesis
      unfolding call_trace_def by (elim exE conjE) (simp add: list_all_fixed_timeout)
  qed
qed

theorem every_attempt_has_the_fixed_timeout_witness:
  "list_all fixed_timeout (posts (effects_since example_world
      (snd (processWithRoboflow flaky_env [0x41] ''image/png'' 3 1000 example_world))))
   \<and> map (\<lambda>p. timeout (post_config p)) (posts (effects_since example_world
      (snd (processWithRoboflow flaky_env [0x41] ''image/png'' 3 1000 example_world))))
      = [60000, 60000, 60000]"
proof
  show "list_all fixed_timeout (posts (effects_since example_world
      (snd (processWithRoboflow flaky_env [0x41] ''image/png'' 3 1000 example_world))))"
    by (rule every_attempt_has_the_fixed_timeout[of example_world flaky_env "[0x41]"
        "''image/png''" 3 1000, THEN conjunct1])
next
  show "map (\<lambda>p. timeout (post_config p)) (posts (effects_since example_world
      (snd (processWithRoboflow flaky_env [0x41] ''image/png'' 3 1000 example_world))))
      = [60000, 60000, 60000]"
    unfolding flaky_run
    by (simp add: effects_since_def example_world_def posts_def the_post_def request_config_def)
qed







text \<open>
  C10. The \<^verbatim>\<open>break\<close> of the retry loop is never taken. With
  \<^verbatim>\<open>validateStatus: () => true\<close> axios resolves every reply, the error thrown for a
  status of 400 or more is a plain \<^verbatim>\<open>Error\<close> without \<^verbatim>\<open>response\<close>, and so is every
  other error \<^verbatim>\<open>makeRequest\<close> throws: the condition \<open>no_retry\<close> is false for
  all of them. Hence a call that ends with an error has made every attempt from 1 to
  \<open>retryCount\<close>, and a call whose attempts all fail, with a 4xx status or otherwise,
  ends with an error.
\<close>

theorem failed_attempts_always_retried:
  "(\<forall>a u w' err. fst (makeRequest e u a w') = Inl err \<longrightarrow> response err = None \<and> \<not> no_retry err)
   \<and> (isl (fst (processWithRoboflow e buf mt rc d w)) \<longrightarrow>
        posts (effects_since w (snd (processWithRoboflow e buf mt rc d w)))
          = map (the_post (svc w) (data_url buf mt)) [1..<Suc (nat rc)])
   \<and> ((\<forall>n. 1 \<le> n \<and> int n \<le> rc \<longrightarrow> failing (vendor e n)) \<longrightarrow>
        isl (fst (processWithRoboflow e buf mt rc d w)))"
proof (intro conjI allI impI)
  fix a u w' err
  assume "fst (makeRequest e u a w') = Inl err"
  then show "response err = None" by (rule makeRequest_error)
next
  fix a u w' err
  assume "fst (makeRequest e u a w') = Inl err"
  then show "\<not> no_retry err" by (rule makeRequest_no_break)
next
  assume "isl (fst (processWithRoboflow e buf mt rc d w))"
  then show "posts (effects_since w (snd (processWithRoboflow e buf mt rc d w)))
          = map (the_post (svc w) (data_url buf mt)) [1..<Suc (nat rc)]"
    by (rule posts_failed_call)
next
  assume A: "\<forall>n. 1 \<le> n \<and> int n \<le> rc \<longrightarrow> failing (vendor e n)"
  show "isl (fst (processWithRoboflow e buf mt rc d w))"
    unfolding processWithRoboflow_def Let_def
    using retry_loop_all_fail[of 1 rc e, OF A] by simp
qed

theorem failed_attempts_always_retried_witness:
  "posts (effects_since example_world
      (snd (processWithRoboflow not_found_env [0x41] ''image/png'' 3 1000 example_world)))
    = [the_post example_service ''data:image/png;base64,QQ=='' 1,
       the_post example_service ''data:image/png;base64,QQ=='' 2,
       the_post example_service ''data:image/png;base64,QQ=='' 3]"
proof -
  have F: "\<forall>n. 1 \<le> n \<and> int n \<le> 3 \<longrightarrow> failing (vendor not_found_env n)"
    by (simp add: not_found_env_def failing_def)
  note T = failed_attempts_always_retried[of not_found_env "[0x41]" "''image/png''" 3 1000
      example_world]
  have I: "isl (fst (processWithRoboflow not_found_env [0x41] ''image/png'' 3 1000 example_world))"
    using T F by (elim conjE) (erule mp)
  have "posts (effects_since example_world
      (snd (processWithRoboflow not_found_env [0x41] ''image/png'' 3 1000 example_world)))
    = map (the_post (svc example_world) (data_url [0x41] ''image/png'')) [1..<Suc (nat 3)]"
    using T I by (elim conjE) (erule mp)
  then show ?thesis
    by (simp add: example_world_def data_url_def b64_char_def b64_chars_def upt_conv_Cons
        the_post_def)
qed

end
